theory Spec2Isabelle
  imports Main
begin

section \<open>Data model of \<^verbatim>\<open>tao::pool< T >\<close>\<close>

text \<open>
  The development embeds \<^verbatim>\<open>src/pool.hpp\<close>. Items of the pooled type \<^verbatim>\<open>T\<close> are values of
  a type variable \<open>'a\<close>; pool objects live in a store indexed by \<open>pool_id\<close> (their address).
  A \<^verbatim>\<open>std::weak_ptr< pool >\<close> is an optional address: \<open>None\<close> is the empty weak pointer,
  and whether a non-empty one still resolves is decided by the store at the moment of
  \<^verbatim>\<open>lock()\<close>.
\<close>

type_synonym pool_id = nat

text \<open>
  \<^verbatim>\<open>struct deleter { std::weak_ptr< pool > pool_; ... }\<close>. An identifier cannot end in an
  underscore here, so the member \<^verbatim>\<open>pool_\<close> is the field \<open>pool_ptr\<close> and the member
  \<^verbatim>\<open>items_\<close> of the pool is the field \<open>items\<close>.
\<close>

record deleter =
  pool_ptr :: "pool_id option"

text \<open>
  A \<^verbatim>\<open>std::shared_ptr< T >\<close> that owns an item: the raw pointer and what
  \<^verbatim>\<open>std::get_deleter< deleter >\<close> finds in its control block (\<open>None\<close> when the control
  block holds a deleter of another type, as for a pointer made by \<^verbatim>\<open>std::make_shared\<close>).
  The value stands for the whole group of copies sharing the control block; an empty
  shared pointer is \<open>None\<close> of the option type where the source can produce one.
\<close>

record 'a shared_ptr =
  ptr :: 'a
  get_deleter :: "deleter option"

text \<open>
  What a call can end with instead of a result: an exception of the factory hook (carrying
  the hook's own value), \<^verbatim>\<open>std::bad_weak_ptr\<close> from \<^verbatim>\<open>shared_from_this\<close>, a failed
  \<^verbatim>\<open>assert\<close>, or a member call through the address of a pool that does not exist
  (undefined in C++; the model names it so that no result is invented for it).
\<close>

datatype 'e exn = Factory_failure 'e | Bad_weak_ptr | Assertion_failed | Invalid_this

text \<open>
  The observable effects, in the order they happen: hook invocations, weak-pointer
  resolution in the deleter (with its result), the mutex, the two structural mutations of
  \<^verbatim>\<open>items_\<close>, and the deletion of an item.
\<close>

datatype 'a event =
    Factory_ok pool_id 'a
  | Factory_failed pool_id
  | V_is_valid pool_id 'a
  | Resolve "pool_id option"
  | Mutex_lock pool_id
  | Mutex_unlock pool_id
  | Push_back pool_id 'a
  | Pop_back pool_id 'a
  | Destroyed 'a

text \<open>
  A pool object: its two virtual hooks and its list of stored shared pointers. The factory
  hook is arbitrary user code that may throw; its outcome is a function of the history so
  far, \<open>Inl\<close> being the exception. \<open>owned\<close> tells whether a \<^verbatim>\<open>std::shared_ptr< pool >\<close>
  currently owns the object, which is what \<^verbatim>\<open>shared_from_this()\<close> and \<^verbatim>\<open>weak_ptr::lock()\<close>
  depend on. The validity hook is \<^verbatim>\<open>const noexcept\<close> and reads only the item.
\<close>

record ('a, 'e) pool =
  v_create :: "'a event list \<Rightarrow> 'e + 'a"
  v_is_valid :: "'a \<Rightarrow> bool"
  items :: "'a shared_ptr list"
  owned :: bool

record ('a, 'e) world =
  pools :: "pool_id \<Rightarrow> ('a, 'e) pool option"
  trace :: "'a event list"

definition emit :: "'a event \<Rightarrow> ('a, 'e) world \<Rightarrow> ('a, 'e) world" where
  "emit e w = w\<lparr>trace := trace w @ [e]\<rparr>"

text \<open>The destructor of a \<^verbatim>\<open>std::unique_ptr< T >\<close> that still owns its item.\<close>

definition destroy :: "'a \<Rightarrow> ('a, 'e) world \<Rightarrow> ('a, 'e) world" where
  "destroy x w = emit (Destroyed x) w"

text \<open>\<^verbatim>\<open>std::weak_ptr< pool >::lock()\<close>\<close>

definition lock :: "pool_id option \<Rightarrow> ('a, 'e) world \<Rightarrow> pool_id option" where
  "lock wp w =
     (case wp of
        None \<Rightarrow> None
      | Some p \<Rightarrow>
          (case pools w p of
             None \<Rightarrow> None
           | Some P \<Rightarrow> if owned P then Some p else None))"

section \<open>Private members\<close>

text \<open>
  \<^verbatim>\<open>void push( std::unique_ptr< T >& up ) noexcept\<close>. The result is the state of \<^verbatim>\<open>up\<close>
  after the call: \<open>None\<close> once \<^verbatim>\<open>up.release()\<close> has handed the item to the new shared
  pointer, which carries a default-constructed \<^verbatim>\<open>deleter()\<close>. The first branch is never
  taken by the deleter, which calls \<open>push\<close> on a pool it has just locked.
\<close>

definition push :: "pool_id \<Rightarrow> 'a \<Rightarrow> ('a, 'e) world \<Rightarrow> 'a option \<times> ('a, 'e) world" where
  "push p up w =
     (case pools w p of
        None \<Rightarrow> (Some up, w)
      | Some P \<Rightarrow>
          let w1 = emit (V_is_valid p up) w in
          if v_is_valid P up then
            let sp = \<lparr>ptr = up, get_deleter = Some \<lparr>pool_ptr = None\<rparr>\<rparr>;
                w2 = emit (Mutex_lock p) w1;
                w3 = emit (Push_back p up)
                       (w2\<lparr>pools := (pools w2)(p \<mapsto> P\<lparr>items := items P @ [sp]\<rparr>)\<rparr>)
            in (None, emit (Mutex_unlock p) w3)
          else (Some up, w1))"

text \<open>
  \<^verbatim>\<open>void deleter::operator()( T* item ) const noexcept\<close>: the weak pointer is resolved
  first; only a pool that resolves is asked to \<open>push\<close>; whatever \<^verbatim>\<open>up\<close> still owns at the
  end of the scope is deleted.
\<close>

definition deleter_call :: "deleter \<Rightarrow> 'a \<Rightarrow> ('a, 'e) world \<Rightarrow> ('a, 'e) world" where
  "deleter_call d item w =
     (let w1 = emit (Resolve (lock (pool_ptr d) w)) w in
      case lock (pool_ptr d) w of
        Some p \<Rightarrow>
          (case push p item w1 of
             (None, w2) \<Rightarrow> w2
           | (Some up, w2) \<Rightarrow> destroy up w2)
      | None \<Rightarrow> destroy item w1)"

text \<open>
  The last strong reference to an item goes away: the control block runs its deleter. A
  control block without a \<^verbatim>\<open>pool::deleter\<close> is taken to delete the item.
\<close>

definition release :: "'a shared_ptr \<Rightarrow> ('a, 'e) world \<Rightarrow> ('a, 'e) world" where
  "release sp w =
     (case get_deleter sp of
        Some d \<Rightarrow> deleter_call d (ptr sp) w
      | None \<Rightarrow> destroy (ptr sp) w)"

text \<open>The destructor of a \<^verbatim>\<open>std::list< std::shared_ptr< T > >\<close>, front to back.\<close>

fun release_all :: "'a shared_ptr list \<Rightarrow> ('a, 'e) world \<Rightarrow> ('a, 'e) world" where
  "release_all [] w = w"
| "release_all (sp # sps) w = release_all sps (release sp w)"

text \<open>\<^verbatim>\<open>std::shared_ptr< T > pull() noexcept\<close>\<close>

definition pull :: "pool_id \<Rightarrow> ('a, 'e) world \<Rightarrow> 'a shared_ptr option \<times> ('a, 'e) world" where
  "pull p w =
     (case pools w p of
        None \<Rightarrow> (None, w)
      | Some P \<Rightarrow>
          let w1 = emit (Mutex_lock p) w in
          if items P \<noteq> [] then
            let nrv = last (items P);
                w2 = emit (Pop_back p (ptr nrv))
                       (w1\<lparr>pools := (pools w1)(p \<mapsto> P\<lparr>items := butlast (items P)\<rparr>)\<rparr>)
            in (Some nrv, emit (Mutex_unlock p) w2)
          else (None, emit (Mutex_unlock p) w1))"

section \<open>Public members\<close>

text \<open>
  \<^verbatim>\<open>static void attach( const std::shared_ptr< T >& sp, const std::shared_ptr< pool >& p )\<close>
  and \<^verbatim>\<open>detach\<close>. The pool argument is a strong pointer, possibly null. The \<^verbatim>\<open>assert( d )\<close>
  is the first branch; the result is the shared pointer with its control block updated.
\<close>

definition attach :: "'a shared_ptr \<Rightarrow> pool_id option \<Rightarrow> 'e exn + 'a shared_ptr" where
  "attach sp p =
     (case get_deleter sp of
        None \<Rightarrow> Inl Assertion_failed
      | Some d \<Rightarrow> Inr (sp\<lparr>get_deleter := Some (d\<lparr>pool_ptr := p\<rparr>)\<rparr>))"

definition detach :: "'a shared_ptr \<Rightarrow> 'e exn + 'a shared_ptr" where
  "detach sp =
     (case get_deleter sp of
        None \<Rightarrow> Inl Assertion_failed
      | Some d \<Rightarrow> Inr (sp\<lparr>get_deleter := Some (d\<lparr>pool_ptr := None\<rparr>)\<rparr>))"

text \<open>\<^verbatim>\<open>this->shared_from_this()\<close>, as of C++17.\<close>

definition shared_from_this :: "pool_id \<Rightarrow> ('a, 'e) world \<Rightarrow> 'e exn + pool_id" where
  "shared_from_this p w =
     (case pools w p of
        None \<Rightarrow> Inl Invalid_this
      | Some P \<Rightarrow> if owned P then Inr p else Inl Bad_weak_ptr)"

text \<open>
  \<^verbatim>\<open>std::shared_ptr< T > create()\<close>. The braced initialiser evaluates its clauses in
  order: the factory hook runs, the unique pointer is released, and only then is
  \<^verbatim>\<open>shared_from_this()\<close> called; when that throws, the raw pointer has no owner and the
  item is neither held nor deleted.
\<close>

definition create ::
  "pool_id \<Rightarrow> ('a, 'e) world \<Rightarrow> ('e exn + 'a shared_ptr) \<times> ('a, 'e) world" where
  "create p w =
     (case pools w p of
        None \<Rightarrow> (Inl Invalid_this, w)
      | Some P \<Rightarrow>
          (case v_create P (trace w) of
             Inl e \<Rightarrow> (Inl (Factory_failure e), emit (Factory_failed p) w)
           | Inr x \<Rightarrow>
               let w1 = emit (Factory_ok p x) w in
               (case shared_from_this p w1 of
                  Inl ex \<Rightarrow> (Inl ex, w1)
                | Inr q \<Rightarrow> (Inr \<lparr>ptr = x, get_deleter = Some \<lparr>pool_ptr = Some q\<rparr>\<rparr>, w1))))"

text \<open>
  What pool \<open>p\<close> has in storage; empty when there is no such pool. The loop of \<open>get\<close> ends
  because every round takes one entry out of \<^verbatim>\<open>items_\<close> and the entry it throws away cannot
  come back: the pool that has just rejected an item rejects it again in \<open>push\<close>.
\<close>

definition stored :: "pool_id \<Rightarrow> ('a, 'e) world \<Rightarrow> 'a shared_ptr list" where
  "stored p w = (case pools w p of None \<Rightarrow> [] | Some P \<Rightarrow> items P)"

text \<open>
  \<^verbatim>\<open>std::shared_ptr< T > get()\<close>. One round of the \<^verbatim>\<open>while\<close> loop per unfolding: \<open>sp\<close> is
  what \<open>pull\<close> returned; a rejected \<open>sp\<close> goes out of scope at the end of the round, which
  runs its deleter. When \<^verbatim>\<open>shared_from_this()\<close> throws, \<open>sp\<close> is released by the unwinding;
  a failed \<^verbatim>\<open>assert\<close> in \<open>attach\<close> stops the program where it stands.
\<close>

function get ::
  "pool_id \<Rightarrow> ('a, 'e) world \<Rightarrow> ('e exn + 'a shared_ptr) \<times> ('a, 'e) world" where
  "get p w =
     (case pools w p of
        None \<Rightarrow> (Inl Invalid_this, w)
      | Some P \<Rightarrow>
          (case pull p w of
             (None, w1) \<Rightarrow> create p w1
           | (Some sp, w1) \<Rightarrow>
               let w2 = emit (V_is_valid p (ptr sp)) w1 in
               if v_is_valid P (ptr sp) then
                 (case shared_from_this p w2 of
                    Inl ex \<Rightarrow> (Inl ex, release sp w2)
                  | Inr q \<Rightarrow>
                      (case attach sp (Some q) of
                         Inl ex \<Rightarrow> (Inl ex, w2)
                       | Inr sp' \<Rightarrow> (Inr sp', w2)))
               else get p (release sp w2)))"
  by pat_completeness auto
termination
proof (relation "measure (\<lambda>(p, w). length (stored p w))")
  show "wf (measure (\<lambda>(p, w). length (stored p w)))" by simp
next
  fix p and w :: "('a, 'e) world" and P x sp w1 w2
  assume P: "pools w p = Some P" and "(x, w1) = pull p w" and "x = Some sp"
    and w2: "w2 = emit (V_is_valid p (ptr sp)) w1" and bad: "\<not> v_is_valid P (ptr sp)"
  let ?P1 = "P\<lparr>items := butlast (items P)\<rparr>"
  have "pull p w = (Some sp, w1)"
    using \<open>(x, w1) = pull p w\<close> \<open>x = Some sp\<close> by simp
  then have ne: "items P \<noteq> []" and sp: "sp = last (items P)"
    and w1: "pools w1 = (pools w)(p \<mapsto> ?P1)"
    using P by (auto simp: pull_def Let_def emit_def split: if_splits)
  have w2p: "pools w2 p = Some ?P1"
    using w1 w2 by (simp add: emit_def)
  have "pools (snd (push q (ptr sp) (emit e w2))) p = Some ?P1" for q e
    using w2p bad by (auto simp: push_def Let_def emit_def split: option.splits)
  then have "pools (deleter_call d (ptr sp) w2) p = Some ?P1" for d
    using w2p
    by (auto simp: deleter_call_def destroy_def emit_def Let_def split: option.splits prod.splits)
       (metis snd_conv)+
  then have "pools (release sp w2) p = Some ?P1"
    using w2p by (simp add: release_def destroy_def emit_def split: option.splits)
  then show "((p, release sp w2), (p, w)) \<in> measure (\<lambda>(p, w). length (stored p w))"
    using P ne by (simp add: stored_def)
qed

declare get.simps [simp del]

text \<open>
  \<^verbatim>\<open>void erase_invalid()\<close>. The loop walks \<^verbatim>\<open>items_\<close> with the iterator \<^verbatim>\<open>it\<close>: \<open>passed\<close>
  are the entries already passed and kept, \<open>it # ahead\<close> the entries from the iterator on,
  \<open>dd\<close> the list \<^verbatim>\<open>deferred_delete\<close>. The lock guard is declared after \<^verbatim>\<open>deferred_delete\<close>,
  so the mutex is unlocked before that list is destroyed.
\<close>

fun erase_loop ::
  "pool_id \<Rightarrow> ('a, 'e) pool \<Rightarrow> 'a shared_ptr list \<Rightarrow> 'a shared_ptr list \<Rightarrow> 'a shared_ptr list \<Rightarrow>
   ('a, 'e) world \<Rightarrow> 'a shared_ptr list \<times> 'a shared_ptr list \<times> ('a, 'e) world" where
  "erase_loop p P passed [] dd w = (passed, dd, w)"
| "erase_loop p P passed (it # ahead) dd w =
     (let w1 = emit (V_is_valid p (ptr it)) w in
      if \<not> v_is_valid P (ptr it) then erase_loop p P passed ahead (dd @ [it]) w1
      else erase_loop p P (passed @ [it]) ahead dd w1)"

definition erase_invalid :: "pool_id \<Rightarrow> ('a, 'e) world \<Rightarrow> ('a, 'e) world" where
  "erase_invalid p w =
     (case pools w p of
        None \<Rightarrow> w
      | Some P \<Rightarrow>
          let w1 = emit (Mutex_lock p) w in
          (case erase_loop p P [] (items P) [] w1 of
             (kept, deferred_delete, w2) \<Rightarrow>
               let w3 = emit (Mutex_unlock p)
                          (w2\<lparr>pools := (pools w2)(p \<mapsto> P\<lparr>items := kept\<rparr>)\<rparr>)
               in release_all deferred_delete w3))"

text \<open>
  \<^verbatim>\<open>virtual ~pool() = default\<close>, run when the last \<^verbatim>\<open>std::shared_ptr< pool >\<close> goes away: the
  weak pointers to the pool have expired by then, the members are destroyed (the list
  \<^verbatim>\<open>items_\<close> releases every stored shared pointer), and the object is gone.
\<close>

definition destroy_pool :: "pool_id \<Rightarrow> ('a, 'e) world \<Rightarrow> ('a, 'e) world" where
  "destroy_pool p w =
     (case pools w p of
        None \<Rightarrow> w
      | Some P \<Rightarrow>
          let w1 = w\<lparr>pools := (pools w)(p \<mapsto> P\<lparr>owned := False\<rparr>)\<rparr>;
              w2 = release_all (items P) w1
          in w2\<lparr>pools := (pools w2)(p := None)\<rparr>)"

section \<open>Callers\<close>

text \<open>
  A caller holds the shared pointers it has been given and has not yet let go of. The
  operations it can perform are the public members, letting go of a held pointer (its last
  strong reference), and letting go of a pool. \<open>Attach\<close> passes the strong pointer to the
  pool that \<open>lock\<close> yields, null when the pool is not there. A call that throws leaves the
  caller with what it held.

  \<open>attach\<close> and \<open>detach\<close> write into the control block, and a caller can reach the control
  block of a stored entry: \<open>push\<close> builds the stored pointer with the constructor that takes
  a raw pointer and a deleter, and for an item type that derives from
  \<^verbatim>\<open>std::enable_shared_from_this< T >\<close> that constructor makes the item's
  \<^verbatim>\<open>shared_from_this()\<close> hand out pointers sharing the new control block. \<open>attach_stored\<close>
  and \<open>detach_stored\<close> are a caller taking such a pointer to the \<open>i\<close>-th stored item of pool
  \<open>p\<close>, calling \<open>attach\<close> or \<open>detach\<close> on it and letting it go again; the stored entry still
  owns the item, so no deleter runs, and what was written into the control block is
  written into the stored entry. A caller that keeps such a pointer is not modelled.
\<close>

definition attach_stored ::
  "pool_id \<Rightarrow> nat \<Rightarrow> pool_id option \<Rightarrow> ('a, 'e) world \<Rightarrow> ('a, 'e) world" where
  "attach_stored p i q w =
     (case pools w p of
        None \<Rightarrow> w
      | Some P \<Rightarrow>
          if i < length (items P)
          then (case attach (items P ! i) q of
                  Inr sp \<Rightarrow> w\<lparr>pools := (pools w)(p \<mapsto> P\<lparr>items := (items P)[i := sp]\<rparr>)\<rparr>
                | Inl (ex :: 'e exn) \<Rightarrow> w)
          else w)"

definition detach_stored :: "pool_id \<Rightarrow> nat \<Rightarrow> ('a, 'e) world \<Rightarrow> ('a, 'e) world" where
  "detach_stored p i w =
     (case pools w p of
        None \<Rightarrow> w
      | Some P \<Rightarrow>
          if i < length (items P)
          then (case detach (items P ! i) of
                  Inr sp \<Rightarrow> w\<lparr>pools := (pools w)(p \<mapsto> P\<lparr>items := (items P)[i := sp]\<rparr>)\<rparr>
                | Inl (ex :: 'e exn) \<Rightarrow> w)
          else w)"

record ('a, 'e) client =
  heap :: "('a, 'e) world"
  held :: "'a shared_ptr list"

datatype op =
    Create pool_id
  | Get pool_id
  | Drop nat
  | Attach nat pool_id
  | Detach nat
  | Erase_invalid pool_id
  | Destroy_pool pool_id
  | Attach_stored pool_id nat pool_id
  | Detach_stored pool_id nat

definition receive ::
  "('e exn + 'a shared_ptr) \<times> ('a, 'e) world \<Rightarrow> ('a, 'e) client \<Rightarrow> ('a, 'e) client" where
  "receive r s =
     (case r of
        (Inr sp, w) \<Rightarrow> \<lparr>heap = w, held = held s @ [sp]\<rparr>
      | (Inl ex, w) \<Rightarrow> \<lparr>heap = w, held = held s\<rparr>)"

fun step :: "op \<Rightarrow> ('a, 'e) client \<Rightarrow> ('a, 'e) client" where
  "step (Create p) s = receive (create p (heap s)) s"
| "step (Get p) s = receive (get p (heap s)) s"
| "step (Drop i) s =
     (if i < length (held s)
      then \<lparr>heap = release (held s ! i) (heap s), held = take i (held s) @ drop (Suc i) (held s)\<rparr>
      else s)"
| "step (Attach i q) s =
     (if i < length (held s)
      then (case attach (held s ! i) (lock (Some q) (heap s)) of
              Inr sp \<Rightarrow> \<lparr>heap = heap s, held = (held s)[i := sp]\<rparr>
            | Inl (ex :: 'e exn) \<Rightarrow> s)
      else s)"
| "step (Detach i) s =
     (if i < length (held s)
      then (case detach (held s ! i) of
              Inr sp \<Rightarrow> \<lparr>heap = heap s, held = (held s)[i := sp]\<rparr>
            | Inl (ex :: 'e exn) \<Rightarrow> s)
      else s)"
| "step (Erase_invalid p) s = \<lparr>heap = erase_invalid p (heap s), held = held s\<rparr>"
| "step (Destroy_pool p) s = \<lparr>heap = destroy_pool p (heap s), held = held s\<rparr>"
| "step (Attach_stored p i q) s =
     \<lparr>heap = attach_stored p i (lock (Some q) (heap s)) (heap s), held = held s\<rparr>"
| "step (Detach_stored p i) s = \<lparr>heap = detach_stored p i (heap s), held = held s\<rparr>"

fun run :: "op list \<Rightarrow> ('a, 'e) client \<Rightarrow> ('a, 'e) client" where
  "run [] s = s"
| "run (c # cs) s = run cs (step c s)"

section \<open>Observations and sample data\<close>

definition is_hook_call :: "'a event \<Rightarrow> bool" where
  "is_hook_call e = (case e of V_is_valid p x \<Rightarrow> True | _ \<Rightarrow> False)"

text \<open>A shared pointer as \<open>create\<close> makes it, and one as \<open>push\<close> stores it.\<close>

definition bound :: "'a \<Rightarrow> pool_id \<Rightarrow> 'a shared_ptr" where
  "bound x p = \<lparr>ptr = x, get_deleter = Some \<lparr>pool_ptr = Some p\<rparr>\<rparr>"

definition unbound :: "'a \<Rightarrow> 'a shared_ptr" where
  "unbound x = \<lparr>ptr = x, get_deleter = Some \<lparr>pool_ptr = None\<rparr>\<rparr>"

text \<open>
  A pool of counters whose validity hook is \<open>0 \<le> value\<close> and whose factory never fails, and
  worlds with that many pools.
\<close>

definition counter_pool :: "(int, string) pool" where
  "counter_pool =
     \<lparr>v_create = (\<lambda>tr. Inr (int (length tr))), v_is_valid = (\<lambda>x. 0 \<le> x), items = [], owned = True\<rparr>"

definition one_pool :: "pool_id \<Rightarrow> ('a, 'e) pool \<Rightarrow> ('a, 'e) world" where
  "one_pool p P = \<lparr>pools = (\<lambda>q. if q = p then Some P else None), trace = []\<rparr>"

definition no_pool :: "('a, 'e) world" where
  "no_pool = \<lparr>pools = (\<lambda>q. None), trace = []\<rparr>"

text \<open>A shared pointer whose control block has no \<^verbatim>\<open>pool::deleter\<close>.\<close>

definition foreign :: "'a \<Rightarrow> 'a shared_ptr" where
  "foreign x = \<lparr>ptr = x, get_deleter = None\<rparr>"

text \<open>Storage after three counters came back and the one in the middle went negative.\<close>

definition swept_pool :: "(int, string) pool" where
  "swept_pool = counter_pool\<lparr>items := [unbound 1, unbound (- 1), unbound 3]\<rparr>"

text \<open>
  What \<open>get\<close> is compared with. An entry is rejected when the validity hook refuses its item.
  Throwing away one rejected entry of pool \<open>p\<close> that carries a default deleter leaves the
  six events of \<open>discard_events\<close>; \<open>discards\<close> are those of a list of entries in the order
  they are popped. \<open>popped\<close> is the world after one entry has been popped and examined.
\<close>

definition rejected :: "('a, 'e) pool \<Rightarrow> 'a shared_ptr \<Rightarrow> bool" where
  "rejected P sp = (\<not> v_is_valid P (ptr sp))"

definition discard_events :: "pool_id \<Rightarrow> 'a \<Rightarrow> 'a event list" where
  "discard_events p x =
     [Mutex_lock p, Pop_back p x, Mutex_unlock p, V_is_valid p x, Resolve None, Destroyed x]"

definition discards :: "pool_id \<Rightarrow> 'a shared_ptr list \<Rightarrow> 'a event list" where
  "discards p xs = concat (map (\<lambda>sp. discard_events p (ptr sp)) xs)"

definition popped :: "pool_id \<Rightarrow> ('a, 'e) pool \<Rightarrow> 'a shared_ptr list \<Rightarrow> 'a shared_ptr \<Rightarrow>
    ('a, 'e) world \<Rightarrow> ('a, 'e) world" where
  "popped p P xs s w =
     \<lparr>pools = (pools w)(p \<mapsto> P\<lparr>items := xs\<rparr>),
      trace = trace w @ [Mutex_lock p, Pop_back p (ptr s), Mutex_unlock p, V_is_valid p (ptr s)]\<rparr>"

text \<open>Every entry carries a pool deleter with an empty association, as \<open>push\<close> makes them.\<close>

definition unbound_entries :: "'a shared_ptr list \<Rightarrow> bool" where
  "unbound_entries xs = list_all (\<lambda>sp. get_deleter sp = Some \<lparr>pool_ptr = None\<rparr>) xs"

definition is_factory_call :: "'a event \<Rightarrow> bool" where
  "is_factory_call e = (case e of Factory_ok p x \<Rightarrow> True | Factory_failed p \<Rightarrow> True | _ \<Rightarrow> False)"

text \<open>Storage whose most recently returned counter has gone negative.\<close>

definition stale_pool :: "(int, string) pool" where
  "stale_pool = counter_pool\<lparr>items := [unbound 1, unbound 3, unbound (- 1)]\<rparr>"

text \<open>
  A pool whose factory always throws, holding one counter that has gone negative; and a
  pool that holds a valid counter but is not owned by any shared pointer (left behind, say,
  by a shared pointer with a deleter that does not delete).
\<close>

definition failing_pool :: "(int, string) pool" where
  "failing_pool =
     \<lparr>v_create = (\<lambda>tr. Inl ''out of counters''), v_is_valid = (\<lambda>x. 0 \<le> x),
      items = [unbound (- 1)], owned = True\<rparr>"

definition unowned_pool :: "(int, string) pool" where
  "unowned_pool = counter_pool\<lparr>items := [unbound 5], owned := False\<rparr>"

text \<open>
  The state of storage that all operations maintain: in every pool, every stored entry
  carries a default deleter. \<open>direct_delete\<close> are the events of letting go of such entries:
  the empty association resolves to nothing and the item is deleted.
\<close>

definition storage_unbound :: "('a, 'e) world \<Rightarrow> bool" where
  "storage_unbound w = (\<forall>p P. pools w p = Some P \<longrightarrow> unbound_entries (items P))"

definition direct_delete :: "'a shared_ptr list \<Rightarrow> 'a event list" where
  "direct_delete xs = concat (map (\<lambda>sp. [Resolve None, Destroyed (ptr sp)]) xs)"

text \<open>A caller that holds nothing yet, on a world with one pool of counters.\<close>

definition fresh_client :: "(int, string) client" where
  "fresh_client = \<lparr>heap = one_pool 0 counter_pool, held = []\<rparr>"

text \<open>
  The operations that do not attach a stored entry through a pointer sharing its control
  block; and a caller that holds nothing yet, on a world with two pools of counters.
\<close>

definition leaves_stored :: "op \<Rightarrow> bool" where
  "leaves_stored c = (case c of Attach_stored p i q \<Rightarrow> False | _ \<Rightarrow> True)"

definition pair_client :: "(int, string) client" where
  "pair_client =
     \<lparr>heap = \<lparr>pools = (\<lambda>q. if q = 0 \<or> q = 1 then Some counter_pool else None), trace = []\<rparr>,
      held = []\<rparr>"

text \<open>
  Counting: the items the factory has constructed and the items that have been deleted, read
  off the trace. \<open>on_pool p\<close> picks the operations of a caller that only calls \<open>create\<close>
  and \<open>get\<close> on pool \<open>p\<close> and lets go of handles. \<open>balanced\<close> is the bookkeeping such a
  caller maintains: the pool is there and owned, stored entries carry default deleters, held
  handles are bound to the pool, and every constructed item is held, stored or deleted.
\<close>

definition is_construction :: "'a event \<Rightarrow> bool" where
  "is_construction e = (case e of Factory_ok p x \<Rightarrow> True | _ \<Rightarrow> False)"

definition is_destruction :: "'a event \<Rightarrow> bool" where
  "is_destruction e = (case e of Destroyed x \<Rightarrow> True | _ \<Rightarrow> False)"

definition constructed :: "'a event list \<Rightarrow> nat" where
  "constructed tr = length (filter is_construction tr)"

definition destroyed :: "'a event list \<Rightarrow> nat" where
  "destroyed tr = length (filter is_destruction tr)"


definition bound_to :: "pool_id \<Rightarrow> 'a shared_ptr list \<Rightarrow> bool" where
  "bound_to p hs = list_all (\<lambda>h. get_deleter h = Some \<lparr>pool_ptr = Some p\<rparr>) hs"


section \<open>Properties\<close>

subsection \<open>Basic facts\<close>

lemma pools_emit [simp]: "pools (emit e w) = pools w"
  by (simp add: emit_def)

lemma trace_emit [simp]: "trace (emit e w) = trace w @ [e]"
  by (simp add: emit_def)

lemma pools_destroy [simp]: "pools (destroy x w) = pools w"
  by (simp add: destroy_def)

lemma trace_destroy [simp]: "trace (destroy x w) = trace w @ [Destroyed x]"
  by (simp add: destroy_def)

lemma pull_Some:
  assumes "pools w p = Some P" and "pull p w = (Some sp, w1)"
  shows "items P \<noteq> [] \<and> sp = last (items P) \<and>
         pools w1 = (pools w)(p \<mapsto> P\<lparr>items := butlast (items P)\<rparr>) \<and>
         trace w1 = trace w @ [Mutex_lock p, Pop_back p (ptr sp), Mutex_unlock p]"
  using assms by (auto simp: pull_def Let_def split: if_splits)

lemma pull_None:
  assumes "pools w p = Some P" and "pull p w = (None, w1)"
  shows "items P = [] \<and> pools w1 = pools w \<and>
         trace w1 = trace w @ [Mutex_lock p, Mutex_unlock p]"
  using assms by (auto simp: pull_def Let_def split: if_splits)

lemma push_rejected:
  assumes "pools w p = Some P" and "\<not> v_is_valid P x"
  shows "pools (snd (push q x w)) p = Some P"
  using assms by (auto simp: push_def Let_def split: option.splits)

lemma release_rejected:
  assumes "pools w p = Some P" and "\<not> v_is_valid P (ptr sp)"
  shows "pools (release sp w) p = Some P"
proof (cases "get_deleter sp")
  case None
  then show ?thesis using assms by (simp add: release_def)
next
  case (Some d)
  show ?thesis
  proof (cases "lock (pool_ptr d) w")
    case None
    then show ?thesis using assms Some by (simp add: release_def deleter_call_def)
  next
    case (Some q)
    have "pools (snd (push q (ptr sp) (emit (Resolve (Some q)) w))) p = Some P"
      using assms by (intro push_rejected) simp_all
    then show ?thesis using \<open>get_deleter sp = Some d\<close> Some
      by (auto simp: release_def deleter_call_def Let_def split: prod.splits option.splits)
  qed
qed

subsection \<open>Sample data\<close>

lemma one_pool_simps [simp]:
  "pools (one_pool p P) q = (if q = p then Some P else None)"
  "trace (one_pool p P) = []"
  by (simp_all add: one_pool_def)

lemma counter_pool_simps [simp]:
  "v_is_valid counter_pool x = (0 \<le> x)" "items counter_pool = []" "owned counter_pool"
  by (simp_all add: counter_pool_def)

subsection \<open>The release protocol\<close>

lemma lock_Some:
  "lock wp w = Some p \<longleftrightarrow> wp = Some p \<and> (\<exists>P. pools w p = Some P \<and> owned P)"
  by (auto simp: lock_def split: option.splits)

lemma release_gone:
  assumes "get_deleter sp = Some d" and "lock (pool_ptr d) w = None"
  shows "release sp w = w\<lparr>trace := trace w @ [Resolve None, Destroyed (ptr sp)]\<rparr>"
  using assms by (simp add: release_def deleter_call_def destroy_def emit_def)

lemma release_invalid:
  assumes "get_deleter sp = Some d" and "lock (pool_ptr d) w = Some p"
    and "pools w p = Some P" and "\<not> v_is_valid P (ptr sp)"
  shows "release sp w =
           w\<lparr>trace := trace w @ [Resolve (Some p), V_is_valid p (ptr sp), Destroyed (ptr sp)]\<rparr>"
  using assms by (simp add: release_def deleter_call_def push_def destroy_def emit_def)

lemma release_valid:
  assumes "get_deleter sp = Some d" and "lock (pool_ptr d) w = Some p"
    and "pools w p = Some P" and "v_is_valid P (ptr sp)"
  shows "release sp w =
           \<lparr>pools = (pools w)(p \<mapsto> P\<lparr>items := items P @ [unbound (ptr sp)]\<rparr>),
            trace = trace w @ [Resolve (Some p), V_is_valid p (ptr sp), Mutex_lock p,
                               Push_back p (ptr sp), Mutex_unlock p]\<rparr>"
  using assms by (simp add: release_def deleter_call_def push_def emit_def unbound_def Let_def)

text \<open>
  C1 (as amended). When the last strong reference to a handle with a pool deleter drops,
  the weak pool association is resolved first. If it does not resolve to a live pool, the
  item is destroyed and no validity hook runs. If it resolves, the validity hook of that
  pool runs next: a rejected item is destroyed and the pool is left as it was; an accepted
  item is appended to that pool's storage under its mutex, wrapped with a default deleter.
\<close>

theorem release_protocol:
  assumes "get_deleter sp = Some d"
  shows "(lock (pool_ptr d) w = None \<longrightarrow>
            release sp w = w\<lparr>trace := trace w @ [Resolve None, Destroyed (ptr sp)]\<rparr>) \<and>
         (\<forall>p P. lock (pool_ptr d) w = Some p \<and> pools w p = Some P \<and> \<not> v_is_valid P (ptr sp) \<longrightarrow>
            release sp w =
              w\<lparr>trace := trace w @ [Resolve (Some p), V_is_valid p (ptr sp), Destroyed (ptr sp)]\<rparr>) \<and>
         (\<forall>p P. lock (pool_ptr d) w = Some p \<and> pools w p = Some P \<and> v_is_valid P (ptr sp) \<longrightarrow>
            release sp w =
              \<lparr>pools = (pools w)(p \<mapsto> P\<lparr>items := items P @ [unbound (ptr sp)]\<rparr>),
               trace = trace w @ [Resolve (Some p), V_is_valid p (ptr sp), Mutex_lock p,
                                  Push_back p (ptr sp), Mutex_unlock p]\<rparr>)"
  using release_gone [OF assms] release_invalid [OF assms] release_valid [OF assms]
  by blast

theorem release_protocol_witness:
  "release (bound 7 0) (no_pool :: (int, string) world) =
     no_pool\<lparr>trace := [Resolve None, Destroyed 7]\<rparr> \<and>
   release (bound (- 1) 0) (one_pool 0 counter_pool) =
     (one_pool 0 counter_pool)\<lparr>trace := [Resolve (Some 0), V_is_valid 0 (- 1), Destroyed (- 1)]\<rparr> \<and>
   release (bound 7 0) (one_pool 0 counter_pool) =
     \<lparr>pools = (pools (one_pool 0 counter_pool))(0 \<mapsto> counter_pool\<lparr>items := [unbound 7]\<rparr>),
      trace = [Resolve (Some 0), V_is_valid 0 7, Mutex_lock 0, Push_back 0 7, Mutex_unlock 0]\<rparr>"
proof -
  have l0: "lock (pool_ptr \<lparr>pool_ptr = Some 0\<rparr>) (no_pool :: (int, string) world) = None"
    by (simp add: lock_def no_pool_def)
  have l1: "lock (pool_ptr \<lparr>pool_ptr = Some 0\<rparr>) (one_pool 0 counter_pool) = Some 0"
    by (simp add: lock_def)
  show ?thesis
    using release_protocol [where sp = "bound 7 0" and d = "\<lparr>pool_ptr = Some 0\<rparr>"
        and w = "no_pool :: (int, string) world"] l0
      release_protocol [where sp = "bound (- 1) 0" and d = "\<lparr>pool_ptr = Some 0\<rparr>"
        and w = "one_pool 0 counter_pool"]
      release_protocol [where sp = "bound 7 0" and d = "\<lparr>pool_ptr = Some 0\<rparr>"
        and w = "one_pool 0 counter_pool"] l1
    by (simp add: bound_def no_pool_def)
qed

text \<open>
  The claim as written fails: released after its pool is gone, an item is destroyed without
  any validity hook being invoked; and with the pool alive, the resolution of the weak
  pointer comes before the hook, not after it.
\<close>

theorem release_hook_first_counterexample:
  "filter is_hook_call (trace (release (bound 7 0) (destroy_pool 0 (one_pool 0 counter_pool)))) = [] \<and>
   trace (release (bound 7 0) (one_pool 0 counter_pool)) =
     [Resolve (Some 0), V_is_valid 0 7, Mutex_lock 0, Push_back 0 7, Mutex_unlock 0]"
  by (simp add: release_def deleter_call_def push_def lock_def destroy_pool_def bound_def
      is_hook_call_def Let_def destroy_def emit_def)

subsection \<open>Release without a pool\<close>

lemma pools_destroy_pool_self [simp]: "pools (destroy_pool p w) p = None"
  by (simp add: destroy_pool_def Let_def split: option.splits)

lemma lock_destroyed [simp]: "lock (Some p) (destroy_pool p w) = None"
  by (simp add: lock_def)

lemma attach_pool_deleter:
  "get_deleter sp = Some d \<Longrightarrow> attach sp q = Inr \<lparr>ptr = ptr sp, get_deleter = Some \<lparr>pool_ptr = q\<rparr>\<rparr>"
  by (simp add: attach_def)

lemma detach_pool_deleter:
  "get_deleter sp = Some d \<Longrightarrow> detach sp = Inr (unbound (ptr sp))"
  by (simp add: detach_def unbound_def)

text \<open>
  C7. A handle released after the pool of its association has been destroyed, or with an
  association that points at no pool, or after \<open>detach\<close>, is released without failure:
  \<open>release\<close> is a total function with no error result, the item is deleted, and no pool is
  changed, so the item is returned nowhere.
\<close>

theorem pool_gone_release:
  assumes "get_deleter sp = Some d"
  shows "(\<forall>p. pool_ptr d = Some p \<longrightarrow>
            release sp (destroy_pool p w) =
              (destroy_pool p w)\<lparr>trace := trace (destroy_pool p w) @ [Resolve None, Destroyed (ptr sp)]\<rparr>) \<and>
         (\<forall>p. pool_ptr d = Some p \<and> pools w p = None \<longrightarrow>
            release sp w = w\<lparr>trace := trace w @ [Resolve None, Destroyed (ptr sp)]\<rparr>) \<and>
         (\<forall>sp'. (detach sp :: 'e exn + 'a shared_ptr) = Inr sp' \<longrightarrow>
            release sp' (w :: ('a, 'e) world) = w\<lparr>trace := trace w @ [Resolve None, Destroyed (ptr sp)]\<rparr>)"
proof (intro conjI allI impI)
  fix p assume "pool_ptr d = Some p"
  then have "lock (pool_ptr d) (destroy_pool p w) = None" by simp
  from release_gone [OF assms this]
  show "release sp (destroy_pool p w) =
          (destroy_pool p w)\<lparr>trace := trace (destroy_pool p w) @ [Resolve None, Destroyed (ptr sp)]\<rparr>" .
next
  fix p assume "pool_ptr d = Some p \<and> pools w p = None"
  then have "lock (pool_ptr d) w = None" by (simp add: lock_def)
  from release_gone [OF assms this]
  show "release sp w = w\<lparr>trace := trace w @ [Resolve None, Destroyed (ptr sp)]\<rparr>" .
next
  fix sp' assume "(detach sp :: 'e exn + 'a shared_ptr) = Inr sp'"
  moreover have "(detach sp :: 'e exn + 'a shared_ptr) = Inr (unbound (ptr sp))"
    by (rule detach_pool_deleter [OF assms])
  ultimately have sp': "sp' = unbound (ptr sp)" by simp
  have "get_deleter sp' = Some \<lparr>pool_ptr = None\<rparr>" "ptr sp' = ptr sp"
    by (simp_all add: sp' unbound_def)
  moreover have "lock (pool_ptr \<lparr>pool_ptr = None\<rparr>) w = None" by (simp add: lock_def)
  ultimately show "release sp' w = w\<lparr>trace := trace w @ [Resolve None, Destroyed (ptr sp)]\<rparr>"
    using release_gone [of sp' "\<lparr>pool_ptr = None\<rparr>" w] by simp
qed

lemma no_pool_simps [simp]:
  "pools no_pool q = None" "trace no_pool = []"
  by (simp_all add: no_pool_def)

lemma destroy_pool_sample:
  "destroy_pool 0 (one_pool 0 counter_pool) = (no_pool :: (int, string) world)"
  by (simp add: destroy_pool_def Let_def no_pool_def one_pool_def counter_pool_def fun_eq_iff)

theorem pool_gone_release_witness:
  "release (bound 7 0) (destroy_pool 0 (one_pool 0 counter_pool)) =
     (no_pool :: (int, string) world)\<lparr>trace := [Resolve None, Destroyed 7]\<rparr> \<and>
   release (bound 7 3) (one_pool 0 counter_pool) =
     (one_pool 0 counter_pool)\<lparr>trace := [Resolve None, Destroyed 7]\<rparr> \<and>
   (detach (bound 7 0) :: string exn + int shared_ptr) = Inr (unbound 7) \<and>
   release (unbound 7) (one_pool 0 counter_pool) =
     (one_pool 0 counter_pool)\<lparr>trace := [Resolve None, Destroyed 7]\<rparr>"
proof -
  have d: "(detach (bound 7 0) :: string exn + int shared_ptr) = Inr (unbound 7)"
    by (simp add: detach_def bound_def unbound_def)
  show ?thesis
    using pool_gone_release [where sp = "bound 7 0" and d = "\<lparr>pool_ptr = Some 0\<rparr>"
        and w = "one_pool 0 counter_pool"]
      pool_gone_release [where sp = "bound 7 3" and d = "\<lparr>pool_ptr = Some 3\<rparr>"
        and w = "one_pool 0 counter_pool"] d
    by (simp add: bound_def destroy_pool_sample)
qed

subsection \<open>Attaching\<close>

text \<open>
  C4 (as amended). \<open>attach\<close> sets the association of every handle whose control block
  carries a pool deleter, whichever pool made it and whatever it was bound to, and a later
  release of the result returns an item the pool accepts to that pool's storage. For a
  handle without that deleter the assertion fails and nothing is attached.
\<close>

theorem attach_rebinds:
  "(\<forall>d. get_deleter sp = Some d \<longrightarrow>
      (attach sp (Some p) :: 'e exn + 'a shared_ptr) = Inr (bound (ptr sp) p)) \<and>
   (get_deleter sp = None \<longrightarrow>
      (attach sp (Some p) :: 'e exn + 'a shared_ptr) = Inl Assertion_failed) \<and>
   (\<forall>sp' P. (attach sp (Some p) :: 'e exn + 'a shared_ptr) = Inr sp' \<and>
       pools w p = Some P \<and> owned P \<and> v_is_valid P (ptr sp) \<longrightarrow>
      release sp' (w :: ('a, 'e) world) =
        \<lparr>pools = (pools w)(p \<mapsto> P\<lparr>items := items P @ [unbound (ptr sp)]\<rparr>),
         trace = trace w @ [Resolve (Some p), V_is_valid p (ptr sp), Mutex_lock p,
                            Push_back p (ptr sp), Mutex_unlock p]\<rparr>)"
proof (intro conjI allI impI)
  fix d assume "get_deleter sp = Some d"
  then show "(attach sp (Some p) :: 'e exn + 'a shared_ptr) = Inr (bound (ptr sp) p)"
    by (simp add: attach_def bound_def)
next
  assume "get_deleter sp = None"
  then show "(attach sp (Some p) :: 'e exn + 'a shared_ptr) = Inl Assertion_failed"
    by (simp add: attach_def)
next
  fix sp' P
  assume a: "(attach sp (Some p) :: 'e exn + 'a shared_ptr) = Inr sp' \<and>
       pools w p = Some P \<and> owned P \<and> v_is_valid P (ptr sp)"
  then have sp': "sp' = bound (ptr sp) p"
    by (auto simp: attach_def bound_def split: option.splits)
  have "get_deleter sp' = Some \<lparr>pool_ptr = Some p\<rparr>" and [simp]: "ptr sp' = ptr sp"
    by (simp_all add: sp' bound_def)
  moreover have "lock (pool_ptr \<lparr>pool_ptr = Some p\<rparr>) w = Some p"
    using a by (simp add: lock_def)
  ultimately show "release sp' w =
        \<lparr>pools = (pools w)(p \<mapsto> P\<lparr>items := items P @ [unbound (ptr sp)]\<rparr>),
         trace = trace w @ [Resolve (Some p), V_is_valid p (ptr sp), Mutex_lock p,
                            Push_back p (ptr sp), Mutex_unlock p]\<rparr>"
    using release_valid [of sp' "\<lparr>pool_ptr = Some p\<rparr>" w p P] a by simp
qed

theorem attach_rebinds_witness:
  "(attach (unbound 7) (Some 0) :: string exn + int shared_ptr) = Inr (bound 7 0) \<and>
   (attach (bound 7 5) (Some 0) :: string exn + int shared_ptr) = Inr (bound 7 0) \<and>
   (attach (foreign 7) (Some 0) :: string exn + int shared_ptr) = Inl Assertion_failed \<and>
   release (bound 7 0) (one_pool 0 counter_pool) =
     \<lparr>pools = (pools (one_pool 0 counter_pool))(0 \<mapsto> counter_pool\<lparr>items := [unbound 7]\<rparr>),
      trace = [Resolve (Some 0), V_is_valid 0 7, Mutex_lock 0, Push_back 0 7, Mutex_unlock 0]\<rparr>"
  using attach_rebinds [where sp = "unbound 7" and p = 0 and w = "one_pool 0 counter_pool"]
    attach_rebinds [where sp = "bound 7 5" and p = 0 and w = "one_pool 0 counter_pool"]
    attach_rebinds [where sp = "foreign (7 :: int)" and p = 0
      and w = "one_pool 0 counter_pool"]
  by (simp add: unbound_def bound_def foreign_def)

text \<open>
  The claim as written fails for an ordinary shared pointer: \<^verbatim>\<open>std::get_deleter\<close> finds no
  pool deleter in it and the assertion fires.
\<close>

theorem attach_foreign_counterexample:
  "(attach (foreign (7 :: int)) (Some 0) :: string exn + int shared_ptr) = Inl Assertion_failed"
  by (simp add: attach_def foreign_def)

subsection \<open>The sweep\<close>

lemma erase_loop_eq:
  "erase_loop p P passed xs dd w =
     (passed @ filter (\<lambda>sp. v_is_valid P (ptr sp)) xs,
      dd @ filter (\<lambda>sp. \<not> v_is_valid P (ptr sp)) xs,
      w\<lparr>trace := trace w @ map (\<lambda>sp. V_is_valid p (ptr sp)) xs\<rparr>)"
  by (induction xs arbitrary: passed dd w) (simp_all add: Let_def emit_def)

lemma release_all_rejected:
  assumes "pools w p = Some P" and "\<forall>sp \<in> set dd. \<not> v_is_valid P (ptr sp)"
  shows "pools (release_all dd w) p = Some P"
  using assms by (induction dd arbitrary: w) (simp_all add: release_rejected)

lemma erase_invalid_self:
  assumes "pools w p = Some P"
  shows "pools (erase_invalid p w) p =
           Some (P\<lparr>items := filter (\<lambda>sp. v_is_valid P (ptr sp)) (items P)\<rparr>)"
proof -
  let ?K = "P\<lparr>items := filter (\<lambda>sp. v_is_valid P (ptr sp)) (items P)\<rparr>"
  let ?dd = "filter (\<lambda>sp. \<not> v_is_valid P (ptr sp)) (items P)"
  let ?w3 = "emit (Mutex_unlock p)
       (w\<lparr>trace := trace w @ [Mutex_lock p] @ map (\<lambda>sp. V_is_valid p (ptr sp)) (items P),
          pools := (pools w)(p \<mapsto> ?K)\<rparr>)"
  have e: "erase_invalid p w = release_all ?dd ?w3"
    using assms by (simp add: erase_invalid_def erase_loop_eq Let_def emit_def)
  have "pools ?w3 p = Some ?K" by simp
  moreover have "\<forall>sp \<in> set ?dd. \<not> v_is_valid ?K (ptr sp)" by simp
  ultimately show ?thesis unfolding e by (rule release_all_rejected)
qed

lemma erase_invalid_all_valid:
  assumes "pools w p = Some P" and "\<forall>sp \<in> set (items P). v_is_valid P (ptr sp)"
  shows "pools (erase_invalid p w) = pools w"
proof -
  have "filter (\<lambda>sp. v_is_valid P (ptr sp)) (items P) = items P"
    "filter (\<lambda>sp. \<not> v_is_valid P (ptr sp)) (items P) = []"
    using assms(2) by (simp_all add: filter_id_conv filter_empty_conv)
  then show ?thesis
    using assms(1) by (simp add: erase_invalid_def erase_loop_eq Let_def fun_upd_idem)
qed

text \<open>
  C6. \<open>erase_invalid\<close> leaves in storage exactly the entries the validity hook accepts,
  in their original order (the storage is filtered), and a second call straight after the
  first changes no pool at all.
\<close>

theorem erase_invalid_sweep:
  assumes "pools w p = Some P"
  shows "pools (erase_invalid p w) p =
           Some (P\<lparr>items := filter (\<lambda>sp. v_is_valid P (ptr sp)) (items P)\<rparr>) \<and>
         pools (erase_invalid p (erase_invalid p w)) = pools (erase_invalid p w)"
proof
  let ?K = "P\<lparr>items := filter (\<lambda>sp. v_is_valid P (ptr sp)) (items P)\<rparr>"
  show 1: "pools (erase_invalid p w) p = Some ?K" by (rule erase_invalid_self [OF assms])
  have "\<forall>sp \<in> set (items ?K). v_is_valid ?K (ptr sp)" by simp
  with 1 show "pools (erase_invalid p (erase_invalid p w)) = pools (erase_invalid p w)"
    by (rule erase_invalid_all_valid)
qed

theorem erase_invalid_sweep_witness:
  "pools (erase_invalid 0 (one_pool 0 swept_pool)) 0 =
     Some (counter_pool\<lparr>items := [unbound 1, unbound 3]\<rparr>) \<and>
   pools (erase_invalid 0 (erase_invalid 0 (one_pool 0 swept_pool))) =
     pools (erase_invalid 0 (one_pool 0 swept_pool))"
  using erase_invalid_sweep [where w = "one_pool 0 swept_pool" and p = 0 and P = swept_pool]
  by (simp add: swept_pool_def unbound_def counter_pool_def)

subsection \<open>One round of \<open>get\<close>\<close>

lemma pull_empty:
  assumes "pools w p = Some P" and "items P = []"
  shows "pull p w = (None, w\<lparr>trace := trace w @ [Mutex_lock p, Mutex_unlock p]\<rparr>)"
  using assms by (simp add: pull_def Let_def emit_def)

lemma pull_snoc:
  assumes "pools w p = Some P" and "items P = xs @ [s]"
  shows "pull p w =
           (Some s, \<lparr>pools = (pools w)(p \<mapsto> P\<lparr>items := xs\<rparr>),
                     trace = trace w @ [Mutex_lock p, Pop_back p (ptr s), Mutex_unlock p]\<rparr>)"
  using assms by (simp add: pull_def Let_def emit_def)

lemma get_empty:
  assumes "pools w p = Some P" and "items P = []"
  shows "get p w = create p (w\<lparr>trace := trace w @ [Mutex_lock p, Mutex_unlock p]\<rparr>)"
  using assms by (subst get.simps) (simp add: pull_empty)

lemma get_reject:
  assumes "pools w p = Some P" and "items P = xs @ [s]" and "\<not> v_is_valid P (ptr s)"
  shows "get p w = get p (release s (popped p P xs s w))"
  using assms by (subst get.simps) (simp add: pull_snoc popped_def emit_def)

lemma get_accept:
  assumes "pools w p = Some P" and "items P = xs @ [s]" and "v_is_valid P (ptr s)"
    and "owned P" and "get_deleter s = Some d"
  shows "get p w = (Inr (bound (ptr s) p), popped p P xs s w)"
  using assms
  by (subst get.simps)
     (simp add: pull_snoc popped_def emit_def shared_from_this_def attach_def bound_def)

lemma get_unowned:
  assumes "pools w p = Some P" and "items P = xs @ [s]" and "v_is_valid P (ptr s)"
    and "\<not> owned P"
  shows "get p w = (Inl Bad_weak_ptr, release s (popped p P xs s w))"
  using assms
  by (subst get.simps) (simp add: pull_snoc popped_def emit_def shared_from_this_def)

lemma lock_None [simp]: "lock None w = None"
  by (simp add: lock_def)

lemma world_eta [simp]: "\<lparr>pools = pools w, trace = trace w\<rparr> = (w :: ('a, 'e) world)"
  by (cases w) simp

lemma release_unbound:
  assumes "get_deleter s = Some \<lparr>pool_ptr = None\<rparr>"
  shows "release s w = w\<lparr>trace := trace w @ [Resolve None, Destroyed (ptr s)]\<rparr>"
  using release_gone [OF assms] by simp

lemma get_discards:
  assumes "pools w p = Some P" and "items P = older @ newer"
    and "\<forall>sp \<in> set newer. rejected P sp" and "unbound_entries newer"
  shows "get p w =
           get p \<lparr>pools = (pools w)(p \<mapsto> P\<lparr>items := older\<rparr>),
                  trace = trace w @ discards p (rev newer)\<rparr>"
  using assms
proof (induction newer arbitrary: w P rule: rev_induct)
  case Nil
  then have "(pools w)(p \<mapsto> P\<lparr>items := older\<rparr>) = pools w"
    by (simp add: fun_upd_idem)
  then show ?case by (simp add: discards_def)
next
  case (snoc b newer)
  let ?P' = "P\<lparr>items := older @ newer\<rparr>"
  let ?w' = "\<lparr>pools = (pools w)(p \<mapsto> ?P'),
              trace = trace w @ discard_events p (ptr b)\<rparr>"
  have b: "\<not> v_is_valid P (ptr b)" "get_deleter b = Some \<lparr>pool_ptr = None\<rparr>"
    using snoc.prems by (simp_all add: rejected_def unbound_entries_def)
  have "get p w = get p (release b (popped p P (older @ newer) b w))"
    using snoc.prems(1,2) b(1) by (intro get_reject) simp_all
  also have "release b (popped p P (older @ newer) b w) = ?w'"
    by (simp add: release_unbound [OF b(2)] popped_def discard_events_def)
  also have "get p ?w' =
      get p \<lparr>pools = (pools ?w')(p \<mapsto> ?P'\<lparr>items := older\<rparr>),
             trace = trace ?w' @ discards p (rev newer)\<rparr>"
    using snoc.prems by (intro snoc.IH) (simp_all add: rejected_def unbound_entries_def)
  also have "\<lparr>pools = (pools ?w')(p \<mapsto> ?P'\<lparr>items := older\<rparr>),
               trace = trace ?w' @ discards p (rev newer)\<rparr> =
             \<lparr>pools = (pools w)(p \<mapsto> P\<lparr>items := older\<rparr>),
              trace = trace w @ discards p (rev (newer @ [b]))\<rparr>"
    by (simp add: discards_def)
  finally show ?case .
qed

lemma get_miss:
  assumes "pools w p = Some P" and "\<forall>sp \<in> set (items P). rejected P sp"
    and "unbound_entries (items P)"
  shows "get p w =
           create p \<lparr>pools = (pools w)(p \<mapsto> P\<lparr>items := []\<rparr>),
                     trace = trace w @ discards p (rev (items P)) @ [Mutex_lock p, Mutex_unlock p]\<rparr>"
proof -
  let ?w' = "\<lparr>pools = (pools w)(p \<mapsto> P\<lparr>items := []\<rparr>),
              trace = trace w @ discards p (rev (items P))\<rparr>"
  have "get p w = get p ?w'"
    using assms by (intro get_discards) simp_all
  also have "\<dots> = create p (?w'\<lparr>trace := trace ?w' @ [Mutex_lock p, Mutex_unlock p]\<rparr>)"
    by (rule get_empty [where P = "P\<lparr>items := []\<rparr>"]) simp_all
  finally show ?thesis by simp
qed

lemma get_hit:
  assumes "pools w p = Some P" and "items P = older @ [s] @ newer"
    and "\<forall>sp \<in> set newer. rejected P sp" and "unbound_entries newer"
    and "v_is_valid P (ptr s)" and "owned P" and "get_deleter s = Some d"
  shows "get p w =
           (Inr (bound (ptr s) p),
            \<lparr>pools = (pools w)(p \<mapsto> P\<lparr>items := older\<rparr>),
             trace = trace w @ discards p (rev newer) @
                [Mutex_lock p, Pop_back p (ptr s), Mutex_unlock p, V_is_valid p (ptr s)]\<rparr>)"
proof -
  let ?P' = "P\<lparr>items := older @ [s]\<rparr>"
  let ?w' = "\<lparr>pools = (pools w)(p \<mapsto> ?P'), trace = trace w @ discards p (rev newer)\<rparr>"
  have "get p w = get p ?w'"
    using assms(1-4) by (intro get_discards [where older = "older @ [s]"]) simp_all
  also have "\<dots> = (Inr (bound (ptr s) p), popped p ?P' older s ?w')"
    using assms(5-7) by (intro get_accept [where d = d]) simp_all
  finally show ?thesis by (simp add: popped_def)
qed


lemma create_pools [simp]: "pools (snd (create p w)) = pools w"
  by (simp add: create_def shared_from_this_def Let_def split: sum.splits option.splits)

lemma no_factory_in_discards [simp]: "filter is_factory_call (discards p xs) = []"
  by (induction xs) (simp_all add: discards_def discard_events_def is_factory_call_def)



lemma unbound_entries_append [simp]:
  "unbound_entries (xs @ ys) \<longleftrightarrow> unbound_entries xs \<and> unbound_entries ys"
  by (simp add: unbound_entries_def)


lemma stored_simps [simp]:
  "pools w p = Some P \<Longrightarrow> stored p w = items P"
  by (simp add: stored_def)

lemma is_factory_call_simps [simp]:
  "is_factory_call (Factory_ok p x)" "is_factory_call (Factory_failed p)"
  "\<not> is_factory_call (V_is_valid p x)" "\<not> is_factory_call (Resolve q)"
  "\<not> is_factory_call (Mutex_lock p)" "\<not> is_factory_call (Mutex_unlock p)"
  "\<not> is_factory_call (Push_back p x)" "\<not> is_factory_call (Pop_back p x)"
  "\<not> is_factory_call (Destroyed x)"
  by (simp_all add: is_factory_call_def)


text \<open>
  C3. Items \<open>a\<close> then \<open>b\<close> released into an empty pool that accepts both: the next \<open>get\<close>
  returns \<open>b\<close>, the one after returns \<open>a\<close>, storage is empty again and the factory was
  never invoked. In general \<open>get\<close> serves the newest entry the hook accepts, and what stays
  in storage is exactly the older entries, in their order.
\<close>

theorem lifo_reuse:
  assumes "pools w p = Some P" and "owned P"
  shows "(items P = [] \<and> v_is_valid P a \<and> v_is_valid P b \<longrightarrow>
            (let w2 = release (bound b p) (release (bound a p) w);
                 r1 = get p w2;
                 r2 = get p (snd r1)
             in fst r1 = Inr (bound b p) \<and> fst r2 = Inr (bound a p) \<and>
                stored p (snd r2) = [] \<and>
                filter is_factory_call (trace (snd r2)) = filter is_factory_call (trace w))) \<and>
         (\<forall>older s newer.
            items P = older @ [s] @ newer \<and> unbound_entries (items P) \<and>
            v_is_valid P (ptr s) \<and> list_all (rejected P) newer \<longrightarrow>
            fst (get p w) = Inr (bound (ptr s) p) \<and> stored p (snd (get p w)) = older)"
proof (intro conjI allI impI)
  assume a: "items P = [] \<and> v_is_valid P a \<and> v_is_valid P b"
  have lk: "lock (pool_ptr \<lparr>pool_ptr = Some p\<rparr>) w' = Some p"
    if "pools w' p = Some P'" "owned P'" for w' :: "('a, 'b) world" and P'
    using that by (simp add: lock_def)
  let ?P1 = "P\<lparr>items := [unbound a]\<rparr>"
  let ?P2 = "P\<lparr>items := [unbound a, unbound b]\<rparr>"
  define w1 where "w1 = release (bound a p) w"
  define w2 where "w2 = release (bound b p) w1"
  have "w1 = \<lparr>pools = (pools w)(p \<mapsto> ?P1),
      trace = trace w @ [Resolve (Some p), V_is_valid p a, Mutex_lock p, Push_back p a, Mutex_unlock p]\<rparr>"
    unfolding w1_def
    using release_valid [of "bound a p" "\<lparr>pool_ptr = Some p\<rparr>" w p P] lk [OF assms] assms a
    by (simp add: bound_def)
  then have w1: "pools w1 = (pools w)(p \<mapsto> ?P1)"
    "trace w1 = trace w @ [Resolve (Some p), V_is_valid p a, Mutex_lock p, Push_back p a, Mutex_unlock p]"
    by simp_all
  have "w2 = \<lparr>pools = (pools w1)(p \<mapsto> ?P1\<lparr>items := items ?P1 @ [unbound b]\<rparr>),
      trace = trace w1 @ [Resolve (Some p), V_is_valid p b, Mutex_lock p, Push_back p b, Mutex_unlock p]\<rparr>"
    unfolding w2_def
    using release_valid [of "bound b p" "\<lparr>pool_ptr = Some p\<rparr>" w1 p ?P1]
      lk [of w1 ?P1] assms a
    by (simp add: bound_def w1)
  then have w2: "pools w2 = (pools w)(p \<mapsto> ?P2)"
    "trace w2 = trace w1 @ [Resolve (Some p), V_is_valid p b, Mutex_lock p, Push_back p b, Mutex_unlock p]"
    by (simp_all add: w1)
  have g1: "get p w2 =
      (Inr (bound b p),
       \<lparr>pools = (pools w2)(p \<mapsto> ?P2\<lparr>items := [unbound a]\<rparr>),
        trace = trace w2 @ discards p (rev []) @
          [Mutex_lock p, Pop_back p (ptr (unbound b)), Mutex_unlock p, V_is_valid p (ptr (unbound b))]\<rparr>)"
    using get_hit [of w2 p ?P2 "[unbound a]" "unbound b" "[]" "\<lparr>pool_ptr = None\<rparr>"] assms a
    by (simp add: w2 unbound_def unbound_entries_def)
  define w3 where "w3 = snd (get p w2)"
  have w3: "pools w3 = (pools w)(p \<mapsto> ?P1)"
    "trace w3 = trace w2 @ [Mutex_lock p, Pop_back p b, Mutex_unlock p, V_is_valid p b]"
    by (simp_all add: w3_def g1 w2(1) discards_def unbound_def)
  have g2: "get p w3 =
      (Inr (bound a p),
       \<lparr>pools = (pools w3)(p \<mapsto> ?P1\<lparr>items := []\<rparr>),
        trace = trace w3 @ discards p (rev []) @
          [Mutex_lock p, Pop_back p (ptr (unbound a)), Mutex_unlock p, V_is_valid p (ptr (unbound a))]\<rparr>)"
    using get_hit [of w3 p ?P1 "[]" "unbound a" "[]" "\<lparr>pool_ptr = None\<rparr>"] assms a
    by (simp add: w3 unbound_def unbound_entries_def)
  have "fst (get p w2) = Inr (bound b p)" by (simp add: g1)
  moreover have "fst (get p w3) = Inr (bound a p)" by (simp add: g2)
  moreover have "stored p (snd (get p w3)) = []" by (simp add: g2 stored_def)
  moreover have "filter is_factory_call (trace (snd (get p w3))) = filter is_factory_call (trace w)"
    by (simp add: g2 w3(2) w2(2) w1(2) discards_def)
  ultimately show "let w2 = release (bound b p) (release (bound a p) w);
                 r1 = get p w2;
                 r2 = get p (snd r1)
             in fst r1 = Inr (bound b p) \<and> fst r2 = Inr (bound a p) \<and>
                stored p (snd r2) = [] \<and>
                filter is_factory_call (trace (snd r2)) = filter is_factory_call (trace w)"
    by (simp add: Let_def w3_def w2_def w1_def)
next
  fix older s newer
  assume a: "items P = older @ [s] @ newer \<and> unbound_entries (items P) \<and>
            v_is_valid P (ptr s) \<and> list_all (rejected P) newer"
  then have "unbound_entries (older @ [s] @ newer)" by clarsimp
  then have d: "get_deleter s = Some \<lparr>pool_ptr = None\<rparr>" and un: "unbound_entries newer"
    by (simp_all add: unbound_entries_def)
  have "get p w =
           (Inr (bound (ptr s) p),
            \<lparr>pools = (pools w)(p \<mapsto> P\<lparr>items := older\<rparr>),
             trace = trace w @ discards p (rev newer) @
                [Mutex_lock p, Pop_back p (ptr s), Mutex_unlock p, V_is_valid p (ptr s)]\<rparr>)"
    using get_hit [OF assms(1) _ _ un _ assms(2) d, of older] a
    by (simp add: list_all_iff)
  then show "fst (get p w) = Inr (bound (ptr s) p)" and "stored p (snd (get p w)) = older"
    by (simp_all add: stored_def)
qed

theorem lifo_reuse_witness:
  "fst (get 0 (release (bound 2 0) (release (bound 1 0) (one_pool 0 counter_pool)))) = Inr (bound 2 0) \<and>
   fst (get 0 (snd (get 0 (release (bound 2 0) (release (bound 1 0) (one_pool 0 counter_pool)))))) =
     Inr (bound 1 0) \<and>
   fst (get 0 (one_pool 0 stale_pool)) = Inr (bound 3 0) \<and>
   stored 0 (snd (get 0 (one_pool 0 stale_pool))) = [unbound 1]"
  using lifo_reuse [where w = "one_pool 0 counter_pool" and p = 0 and P = counter_pool
      and a = 1 and b = 2]
    lifo_reuse [where w = "one_pool 0 stale_pool" and p = 0 and P = stale_pool,
      THEN conjunct2, rule_format, of "[unbound 1]" "unbound 3" "[unbound (- 1)]"]
  by (simp add: Let_def stale_pool_def unbound_entries_def unbound_def rejected_def)

subsection \<open>Failure of the factory\<close>

lemma create_failure:
  assumes "pools w p = Some P" and "v_create P (trace w) = Inl e"
  shows "create p w = (Inl (Factory_failure e), w\<lparr>trace := trace w @ [Factory_failed p]\<rparr>)"
  using assms by (simp add: create_def emit_def)

lemma create_failure_iff:
  assumes "pools w p = Some P" and "create p w = (Inl (Factory_failure e), w')"
  shows "v_create P (trace w) = Inl e \<and> w' = w\<lparr>trace := trace w @ [Factory_failed p]\<rparr>"
  using assms
  by (auto simp: create_def emit_def shared_from_this_def Let_def split: sum.splits if_splits)

lemma get_top_valid_no_factory_failure:
  assumes "pools w p = Some P" and "items P = xs @ [s]" and "v_is_valid P (ptr s)"
  shows "fst (get p w) \<noteq> Inl (Factory_failure e)"
  using assms
  by (subst get.simps)
     (simp add: pull_snoc shared_from_this_def attach_def Let_def split: option.splits)

lemma popped_pools [simp]: "pools (popped p P xs s w) = (pools w)(p \<mapsto> P\<lparr>items := xs\<rparr>)"
  by (simp add: popped_def)

lemma rejected_update [simp]:
  "rejected (P\<lparr>items := xs\<rparr>) = rejected P" "rejected (P\<lparr>owned := b\<rparr>) = rejected P"
  by (simp_all add: rejected_def fun_eq_iff)

lemma get_failure_drained:
  assumes "pools w p = Some P" and "get p w = (Inl (Factory_failure e), w')"
  shows "pools w' p = Some (P\<lparr>items := []\<rparr>) \<and> list_all (rejected P) (items P) \<and>
         v_create P (butlast (trace w')) = Inl e \<and> last (trace w') = Factory_failed p"
  using assms
proof (induction "items P" arbitrary: w P rule: rev_induct)
  case Nil
  let ?w1 = "w\<lparr>trace := trace w @ [Mutex_lock p, Mutex_unlock p]\<rparr>"
  have "create p ?w1 = (Inl (Factory_failure e), w')"
    using Nil get_empty [of w p P] by simp
  moreover have "pools ?w1 p = Some P" using Nil by simp
  ultimately have "v_create P (trace ?w1) = Inl e \<and> w' = ?w1\<lparr>trace := trace ?w1 @ [Factory_failed p]\<rparr>"
    by (rule create_failure_iff [rotated])
  then show ?case using Nil(1) [symmetric] Nil(2) by (simp add: butlast_append)
next
  case (snoc s xs)
  have it: "items P = xs @ [s]" using snoc.hyps(2) by simp
  have rej: "\<not> v_is_valid P (ptr s)"
    using get_top_valid_no_factory_failure [OF snoc.prems(1) it, of e] snoc.prems(2) by auto
  let ?P' = "P\<lparr>items := xs\<rparr>"
  let ?w' = "release s (popped p P xs s w)"
  have g: "get p ?w' = (Inl (Factory_failure e), w')"
    using get_reject [OF snoc.prems(1) it rej] snoc.prems(2) by simp
  have P': "pools ?w' p = Some ?P'"
    using rej by (intro release_rejected) simp_all
  have "pools w' p = Some (?P'\<lparr>items := []\<rparr>) \<and> list_all (rejected ?P') (items ?P') \<and>
         v_create ?P' (butlast (trace w')) = Inl e \<and> last (trace w') = Factory_failed p"
    by (rule snoc.hyps(1) [OF _ P' g]) simp
  then show ?case using rej it by (simp add: rejected_def)
qed

text \<open>
  C5 (as amended). \<open>create\<close> changes no pool, whatever it returns, and a failure of the
  factory is its result unchanged. When \<open>get\<close> ends with a failure of the factory, that
  failure is what the factory threw at the fallback, nothing has been added to storage, and
  storage is empty: every entry was rejected and popped on the way. So storage is as before
  the call only when it was empty before.
\<close>

theorem factory_failure_atomicity:
  assumes "pools w p = Some P"
  shows "pools (snd (create p w)) = pools w \<and>
         (\<forall>e. v_create P (trace w) = Inl e \<longrightarrow>
            create p w = (Inl (Factory_failure e), w\<lparr>trace := trace w @ [Factory_failed p]\<rparr>)) \<and>
         (\<forall>e w'. get p w = (Inl (Factory_failure e), w') \<longrightarrow>
            stored p w' = [] \<and> list_all (rejected P) (items P) \<and>
            v_create P (butlast (trace w')) = Inl e \<and> last (trace w') = Factory_failed p) \<and>
         (\<forall>e. list_all (rejected P) (items P) \<and> unbound_entries (items P) \<and>
            v_create P (trace w @ discards p (rev (items P)) @ [Mutex_lock p, Mutex_unlock p]) = Inl e \<longrightarrow>
            fst (get p w) = Inl (Factory_failure e) \<and> stored p (snd (get p w)) = [])"
proof (intro conjI allI impI)
  show "pools (snd (create p w)) = pools w" by simp
next
  fix e assume "v_create P (trace w) = Inl e"
  then show "create p w = (Inl (Factory_failure e), w\<lparr>trace := trace w @ [Factory_failed p]\<rparr>)"
    by (rule create_failure [OF assms])
next
  fix e w' assume g: "get p w = (Inl (Factory_failure e), w')"
  note f = get_failure_drained [OF assms g]
  from f show "stored p w' = []" by (simp add: stored_def)
  from f show "list_all (rejected P) (items P)" by simp
  from f show "v_create P (butlast (trace w')) = Inl e" by simp
  from f show "last (trace w') = Factory_failed p" by simp
next
  fix e
  assume a: "list_all (rejected P) (items P) \<and> unbound_entries (items P) \<and>
            v_create P (trace w @ discards p (rev (items P)) @ [Mutex_lock p, Mutex_unlock p]) = Inl e"
  let ?w' = "\<lparr>pools = (pools w)(p \<mapsto> P\<lparr>items := []\<rparr>),
              trace = trace w @ discards p (rev (items P)) @ [Mutex_lock p, Mutex_unlock p]\<rparr>"
  have "get p w = create p ?w'"
    using a by (intro get_miss [OF assms]) (simp_all add: list_all_iff)
  also have "\<dots> = (Inl (Factory_failure e), ?w'\<lparr>trace := trace ?w' @ [Factory_failed p]\<rparr>)"
    using a by (intro create_failure [where P = "P\<lparr>items := []\<rparr>"]) simp_all
  finally show "fst (get p w) = Inl (Factory_failure e)" and "stored p (snd (get p w)) = []"
    by (simp_all add: stored_def)
qed

theorem factory_failure_atomicity_witness:
  "create 0 (one_pool 0 failing_pool) =
     (Inl (Factory_failure ''out of counters''), (one_pool 0 failing_pool)\<lparr>trace := [Factory_failed 0]\<rparr>) \<and>
   pools (snd (create 0 (one_pool 0 counter_pool))) = pools (one_pool 0 counter_pool) \<and>
   fst (get 0 (one_pool 0 failing_pool)) = Inl (Factory_failure ''out of counters'') \<and>
   stored 0 (snd (get 0 (one_pool 0 failing_pool))) = []"
  using factory_failure_atomicity [where w = "one_pool 0 failing_pool" and p = 0 and P = failing_pool]
    factory_failure_atomicity [where w = "one_pool 0 counter_pool" and p = 0 and P = counter_pool]
  by (simp add: failing_pool_def rejected_def unbound_entries_def unbound_def)

text \<open>
  The claim as written fails for \<open>get\<close>: with one rejected counter in storage and a factory
  that throws, the failure reaches the caller and storage has lost the counter.
\<close>

theorem get_fallback_failure_counterexample:
  "fst (get 0 (one_pool 0 failing_pool)) = Inl (Factory_failure ''out of counters'') \<and>
   stored 0 (one_pool 0 failing_pool) = [unbound (- 1)] \<and>
   stored 0 (snd (get 0 (one_pool 0 failing_pool))) = []"
proof -
  have "pools (one_pool 0 failing_pool) 0 = Some failing_pool" by simp
  moreover have "\<forall>sp \<in> set (items failing_pool). rejected failing_pool sp"
    "unbound_entries (items failing_pool)"
    by (simp_all add: failing_pool_def rejected_def unbound_entries_def unbound_def)
  ultimately have "get 0 (one_pool 0 failing_pool) =
      create 0 \<lparr>pools = (pools (one_pool 0 failing_pool))(0 \<mapsto> failing_pool\<lparr>items := []\<rparr>),
                trace = trace (one_pool 0 failing_pool) @ discards 0 (rev (items failing_pool)) @
                  [Mutex_lock 0, Mutex_unlock 0]\<rparr>"
    by (rule get_miss)
  then show ?thesis
    by (simp add: create_def emit_def stored_def) (simp add: failing_pool_def)
qed

subsection \<open>A pool that no shared pointer owns\<close>

lemma push_unowned:
  assumes "pools w p = Some P" and "q \<noteq> p"
  shows "pools (snd (push q x w)) p = Some P"
  using assms by (auto simp: push_def Let_def split: option.splits)

lemma release_unowned:
  assumes "pools w p = Some P" and "\<not> owned P"
  shows "pools (release s w) p = Some P"
proof (cases "get_deleter s")
  case None
  then show ?thesis using assms by (simp add: release_def)
next
  case (Some d)
  show ?thesis
  proof (cases "lock (pool_ptr d) w")
    case None
    then show ?thesis using assms Some by (simp add: release_def deleter_call_def)
  next
    case (Some q)
    then have "q \<noteq> p" using assms by (auto simp: lock_Some)
    then have "pools (snd (push q (ptr s) (emit (Resolve (Some q)) w))) p = Some P"
      using assms by (intro push_unowned) simp_all
    then show ?thesis using \<open>get_deleter s = Some d\<close> Some
      by (auto simp: release_def deleter_call_def Let_def split: prod.splits option.splits)
  qed
qed

lemma create_unowned:
  assumes "pools w p = Some P" and "\<not> owned P"
  shows "fst (create p w) =
           (case v_create P (trace w) of Inl e \<Rightarrow> Inl (Factory_failure e) | Inr x \<Rightarrow> Inl Bad_weak_ptr)"
  using assms by (simp add: create_def shared_from_this_def Let_def split: sum.splits)

lemma get_unowned_result:
  assumes "pools w p = Some P" and "\<not> owned P"
  shows "(fst (get p w) = Inl Bad_weak_ptr \<or> (\<exists>e. fst (get p w) = Inl (Factory_failure e))) \<and>
         (\<not> list_all (rejected P) (items P) \<longrightarrow> fst (get p w) = Inl Bad_weak_ptr) \<and>
         pools (snd (get p w)) p =
           Some (P\<lparr>items := rev (drop 1 (dropWhile (rejected P) (rev (items P))))\<rparr>)"
  using assms
proof (induction "items P" arbitrary: w P rule: rev_induct)
  case Nil
  let ?w1 = "w\<lparr>trace := trace w @ [Mutex_lock p, Mutex_unlock p]\<rparr>"
  have g: "get p w = create p ?w1" using Nil get_empty [of w p P] by simp
  have "pools ?w1 p = Some P" using Nil by simp
  from create_unowned [OF this Nil(3)] Nil(1) [symmetric] Nil(2) show ?case
    by (auto simp: g split: sum.splits)
next
  case (snoc s xs)
  have it: "items P = xs @ [s]" using snoc.hyps(2) by simp
  let ?P' = "P\<lparr>items := xs\<rparr>"
  let ?w' = "release s (popped p P xs s w)"
  have P': "pools ?w' p = Some ?P'"
    using snoc.prems(2) by (intro release_unowned) simp_all
  show ?case
  proof (cases "v_is_valid P (ptr s)")
    case True
    have "get p w = (Inl Bad_weak_ptr, ?w')"
      by (rule get_unowned [OF snoc.prems(1) it True snoc.prems(2)])
    then show ?thesis using P' True it by (simp add: rejected_def)
  next
    case False
    have g: "get p w = get p ?w'"
      by (rule get_reject [OF snoc.prems(1) it False])
    have "(fst (get p ?w') = Inl Bad_weak_ptr \<or> (\<exists>e. fst (get p ?w') = Inl (Factory_failure e))) \<and>
         (\<not> list_all (rejected ?P') (items ?P') \<longrightarrow> fst (get p ?w') = Inl Bad_weak_ptr) \<and>
         pools (snd (get p ?w')) p =
           Some (?P'\<lparr>items := rev (drop 1 (dropWhile (rejected ?P') (rev (items ?P'))))\<rparr>)"
      using snoc.prems(2) by (intro snoc.hyps(1) [OF _ P']) simp_all
    then show ?thesis using False it by (simp add: g rejected_def)
  qed
qed

text \<open>
  C10 (as amended). On a pool that is not owned through a shared pointer, \<open>create\<close> runs
  the factory and then fails, with \<^verbatim>\<open>std::bad_weak_ptr\<close> if the factory returned an item and
  with the factory's failure otherwise, and changes no pool. \<open>get\<close> fails as well, with
  \<^verbatim>\<open>std::bad_weak_ptr\<close> whenever storage holds an acceptable entry; its storage afterwards
  is what lay under the newest acceptable entry, so every entry it popped, that one
  included, is gone.
\<close>

theorem unowned_pool_calls:
  assumes "pools w p = Some P" and "\<not> owned P"
  shows "fst (create p w) =
           (case v_create P (trace w) of Inl e \<Rightarrow> Inl (Factory_failure e) | Inr x \<Rightarrow> Inl Bad_weak_ptr) \<and>
         pools (snd (create p w)) = pools w \<and>
         (fst (get p w) = Inl Bad_weak_ptr \<or> (\<exists>e. fst (get p w) = Inl (Factory_failure e))) \<and>
         (\<not> list_all (rejected P) (items P) \<longrightarrow> fst (get p w) = Inl Bad_weak_ptr) \<and>
         stored p (snd (get p w)) = rev (drop 1 (dropWhile (rejected P) (rev (items P))))"
  using create_unowned [OF assms] get_unowned_result [OF assms]
  by (simp add: stored_def)

theorem unowned_pool_calls_witness:
  "fst (create 0 (one_pool 0 unowned_pool)) = Inl Bad_weak_ptr \<and>
   pools (snd (create 0 (one_pool 0 unowned_pool))) = pools (one_pool 0 unowned_pool) \<and>
   fst (get 0 (one_pool 0 unowned_pool)) = Inl Bad_weak_ptr \<and>
   stored 0 (snd (get 0 (one_pool 0 unowned_pool))) = []"
  using unowned_pool_calls [where w = "one_pool 0 unowned_pool" and p = 0 and P = unowned_pool]
  by (simp add: unowned_pool_def rejected_def unbound_def counter_pool_def)

text \<open>
  The claim as written fails for \<open>get\<close>: the valid counter is popped before
  \<^verbatim>\<open>shared_from_this()\<close> throws and is deleted by the unwinding.
\<close>

theorem unowned_get_counterexample:
  "fst (get 0 (one_pool 0 unowned_pool)) = Inl Bad_weak_ptr \<and>
   stored 0 (one_pool 0 unowned_pool) = [unbound 5] \<and>
   stored 0 (snd (get 0 (one_pool 0 unowned_pool))) = []"
proof -
  have "get 0 (one_pool 0 unowned_pool) =
      (Inl Bad_weak_ptr, release (unbound 5) (popped 0 unowned_pool [] (unbound 5) (one_pool 0 unowned_pool)))"
    by (rule get_unowned) (simp_all add: unowned_pool_def unbound_def counter_pool_def)
  then show ?thesis
    by (simp add: release_unbound unbound_def stored_def unowned_pool_def)
qed

subsection \<open>Stored entries are unbound\<close>

lemma storage_unboundD:
  "storage_unbound w \<Longrightarrow> pools w p = Some P \<Longrightarrow> unbound_entries (items P)"
  by (simp add: storage_unbound_def)

lemma storage_unbound_same:
  "storage_unbound w \<Longrightarrow> pools w' = pools w \<Longrightarrow> storage_unbound w'"
  by (simp add: storage_unbound_def)

lemma storage_unbound_emit [simp]:
  "storage_unbound (emit e w) = storage_unbound w"
  "storage_unbound (destroy x w) = storage_unbound w"
  "storage_unbound (w\<lparr>trace := tr\<rparr>) = storage_unbound w"
  by (simp_all add: storage_unbound_def)

lemma storage_unbound_upd:
  assumes "storage_unbound w" and "pools w' = (pools w)(p \<mapsto> P')" and "unbound_entries (items P')"
  shows "storage_unbound w'"
  using assms by (simp add: storage_unbound_def)

lemma storage_unbound_del:
  assumes "storage_unbound w" and "pools w' = (pools w)(p := None)"
  shows "storage_unbound w'"
  using assms by (simp add: storage_unbound_def)

lemma unbound_entries_sub:
  "unbound_entries xs \<Longrightarrow> set ys \<subseteq> set xs \<Longrightarrow> unbound_entries ys"
  by (auto simp: unbound_entries_def list_all_iff)

lemma push_unbound:
  assumes "storage_unbound w"
  shows "storage_unbound (snd (push q x w))"
proof (cases "pools w q")
  case None
  then show ?thesis using assms by (simp add: push_def)
next
  case (Some Q)
  show ?thesis
  proof (cases "v_is_valid Q x")
    case False
    then show ?thesis using assms Some
      by (simp add: push_def Let_def)
  next
    case True
    have "unbound_entries (items Q)" by (rule storage_unboundD [OF assms Some])
    then have ue: "unbound_entries (items (Q\<lparr>items := items Q @ [unbound x]\<rparr>))"
      by (simp add: unbound_entries_def unbound_def)
    have "pools (snd (push q x w)) = (pools w)(q \<mapsto> Q\<lparr>items := items Q @ [unbound x]\<rparr>)"
      using Some True by (simp add: push_def Let_def unbound_def)
    then show ?thesis using ue by (rule storage_unbound_upd [OF assms])
  qed
qed

lemma release_storage_unbound:
  assumes "storage_unbound w"
  shows "storage_unbound (release sp w)"
proof (cases "get_deleter sp")
  case None
  then show ?thesis using assms by (simp add: release_def)
next
  case (Some d)
  show ?thesis
  proof (cases "lock (pool_ptr d) w")
    case None
    then show ?thesis using assms Some
      by (simp add: release_def deleter_call_def)
  next
    case (Some q)
    have "storage_unbound (emit (Resolve (Some q)) w)"
      using assms by simp
    then have "storage_unbound (snd (push q (ptr sp) (emit (Resolve (Some q)) w)))"
      by (rule push_unbound)
    then show ?thesis using \<open>get_deleter sp = Some d\<close> Some
      by (auto simp: release_def deleter_call_def Let_def split: prod.splits option.splits)
  qed
qed

lemma release_all_storage_unbound:
  "storage_unbound w \<Longrightarrow> storage_unbound (release_all xs w)"
  by (induction xs arbitrary: w) (simp_all add: release_storage_unbound)

lemma release_all_unbound:
  assumes "unbound_entries xs"
  shows "release_all xs w = w\<lparr>trace := trace w @ direct_delete xs\<rparr>"
  using assms
proof (induction xs arbitrary: w)
  case Nil
  show ?case by (simp add: direct_delete_def)
next
  case (Cons x xs)
  then have x: "get_deleter x = Some \<lparr>pool_ptr = None\<rparr>" and xs: "unbound_entries xs"
    by (simp_all add: unbound_entries_def)
  show ?case
    by (simp add: release_unbound [OF x] Cons.IH [OF xs] direct_delete_def)
qed

lemma get_top_valid_world:
  assumes "pools w p = Some P" and "items P = xs @ [s]" and "v_is_valid P (ptr s)"
  shows "snd (get p w) = popped p P xs s w \<or> snd (get p w) = release s (popped p P xs s w)"
  using assms
  by (simp add: get.simps [of p w] pull_snoc shared_from_this_def attach_def Let_def popped_def
      emit_def split: option.splits)

lemma get_storage_unbound_aux:
  assumes "pools w p = Some P" and "storage_unbound w"
  shows "storage_unbound (snd (get p w))"
  using assms
proof (induction "items P" arbitrary: w P rule: rev_induct)
  case Nil
  then have "get p w = create p (w\<lparr>trace := trace w @ [Mutex_lock p, Mutex_unlock p]\<rparr>)"
    using get_empty [of w p P] by simp
  then show ?case using Nil(3) by (simp add: storage_unbound_same [where w = w])
next
  case (snoc s xs)
  have it: "items P = xs @ [s]" using snoc.hyps(2) by simp
  have "unbound_entries (items P)" by (rule storage_unboundD [OF snoc.prems(2,1)])
  then have "unbound_entries (items (P\<lparr>items := xs\<rparr>))" by (simp add: it)
  with popped_pools have pop: "storage_unbound (popped p P xs s w)"
    by (rule storage_unbound_upd [OF snoc.prems(2)])
  show ?case
  proof (cases "v_is_valid P (ptr s)")
    case True
    from get_top_valid_world [OF snoc.prems(1) it True] pop show ?thesis
      by (auto intro: release_storage_unbound)
  next
    case False
    let ?w' = "release s (popped p P xs s w)"
    have g: "get p w = get p ?w'" by (rule get_reject [OF snoc.prems(1) it False])
    have "pools ?w' p = Some (P\<lparr>items := xs\<rparr>)"
      using False by (intro release_rejected) simp_all
    moreover have "storage_unbound ?w'" using pop by (rule release_storage_unbound)
    ultimately have "storage_unbound (snd (get p ?w'))"
      by (intro snoc.hyps(1)) simp_all
    then show ?thesis by (simp add: g)
  qed
qed

lemma get_storage_unbound:
  assumes "storage_unbound w"
  shows "storage_unbound (snd (get p w))"
proof (cases "pools w p")
  case None
  then show ?thesis using assms by (subst get.simps) simp
next
  case (Some P)
  then show ?thesis using assms by (rule get_storage_unbound_aux)
qed

lemma world_update_all:
  "(w :: ('a, 'e) world)\<lparr>pools := A, trace := B\<rparr> = \<lparr>pools = A, trace = B\<rparr>"
  by (cases w) simp

lemma erase_invalid_eq:
  assumes "pools w p = Some P"
  shows "erase_invalid p w =
           release_all (filter (rejected P) (items P))
             \<lparr>pools = (pools w)(p \<mapsto> P\<lparr>items := filter (\<lambda>sp. v_is_valid P (ptr sp)) (items P)\<rparr>),
              trace = trace w @ [Mutex_lock p] @ map (\<lambda>sp. V_is_valid p (ptr sp)) (items P) @
                [Mutex_unlock p]\<rparr>"
  using assms
  by (simp add: erase_invalid_def erase_loop_eq Let_def emit_def rejected_def [abs_def]
      world_update_all)

lemma erase_invalid_storage_unbound:
  assumes "storage_unbound w"
  shows "storage_unbound (erase_invalid p w)"
proof (cases "pools w p")
  case None
  then show ?thesis using assms by (simp add: erase_invalid_def)
next
  case (Some P)
  have "unbound_entries (items P)" by (rule storage_unboundD [OF assms Some])
  then have "unbound_entries (filter (\<lambda>sp. v_is_valid P (ptr sp)) (items P))"
    by (rule unbound_entries_sub) simp
  then have "storage_unbound
      \<lparr>pools = (pools w)(p \<mapsto> P\<lparr>items := filter (\<lambda>sp. v_is_valid P (ptr sp)) (items P)\<rparr>),
       trace = trace w @ [Mutex_lock p] @ map (\<lambda>sp. V_is_valid p (ptr sp)) (items P) @
         [Mutex_unlock p]\<rparr>"
    by (intro storage_unbound_upd [OF assms, where p = p
          and P' = "P\<lparr>items := filter (\<lambda>sp. v_is_valid P (ptr sp)) (items P)\<rparr>"]) simp_all
  then show ?thesis
    unfolding erase_invalid_eq [OF Some] by (rule release_all_storage_unbound)
qed

lemma destroy_pool_storage_unbound:
  assumes "storage_unbound w"
  shows "storage_unbound (destroy_pool p w)"
proof (cases "pools w p")
  case None
  then show ?thesis using assms by (simp add: destroy_pool_def)
next
  case (Some P)
  let ?w1 = "w\<lparr>pools := (pools w)(p \<mapsto> P\<lparr>owned := False\<rparr>)\<rparr>"
  have "unbound_entries (items P)" by (rule storage_unboundD [OF assms Some])
  then have "storage_unbound ?w1"
    by (intro storage_unbound_upd [OF assms, where p = p and P' = "P\<lparr>owned := False\<rparr>"]) simp_all
  then have "storage_unbound (release_all (items P) ?w1)"
    by (rule release_all_storage_unbound)
  then show ?thesis using Some
    by (simp add: destroy_pool_def Let_def storage_unbound_del [where p = p])
qed

lemma detach_stored_storage_unbound:
  assumes "storage_unbound w"
  shows "storage_unbound (detach_stored p i w)"
proof (cases "pools w p")
  case None
  then show ?thesis using assms by (simp add: detach_stored_def)
next
  case (Some P)
  have ue: "unbound_entries (items P)" by (rule storage_unboundD [OF assms Some])
  show ?thesis
  proof (cases "i < length (items P)")
    case False
    then show ?thesis using assms Some by (simp add: detach_stored_def)
  next
    case True
    then have "get_deleter (items P ! i) = Some \<lparr>pool_ptr = None\<rparr>"
      using ue by (simp add: unbound_entries_def list_all_length)
    then have d: "(detach (items P ! i) :: 'b exn + 'a shared_ptr) = Inr (unbound (ptr (items P ! i)))"
      by (rule detach_pool_deleter)
    have "unbound_entries ((items P)[i := unbound (ptr (items P ! i))])"
      using ue set_update_subset_insert [of "items P" i "unbound (ptr (items P ! i))"]
      by (auto simp: unbound_entries_def list_all_iff unbound_def)
    then have "storage_unbound
        (w\<lparr>pools := (pools w)(p \<mapsto> P\<lparr>items := (items P)[i := unbound (ptr (items P ! i))]\<rparr>)\<rparr>)"
      by (intro storage_unbound_upd [OF assms, where p = p
            and P' = "P\<lparr>items := (items P)[i := unbound (ptr (items P ! i))]\<rparr>"]) simp_all
    then show ?thesis using Some True d by (simp add: detach_stored_def)
  qed
qed

lemma step_storage_unbound:
  assumes "storage_unbound (heap s)" and "leaves_stored c"
  shows "storage_unbound (heap (step c s))"
proof (cases c)
  case (Create p)
  have "heap (receive (create p (heap s)) s) = snd (create p (heap s))"
    by (cases "create p (heap s)") (auto simp: receive_def split: sum.splits)
  then show ?thesis using assms Create by (simp add: storage_unbound_same [where w = "heap s"])
next
  case (Get p)
  have "heap (receive (get p (heap s)) s) = snd (get p (heap s))"
    by (cases "get p (heap s)") (auto simp: receive_def split: sum.splits)
  then show ?thesis using assms Get by (simp add: get_storage_unbound)
next
  case (Drop i)
  then show ?thesis using assms by (simp add: release_storage_unbound)
next
  case (Attach i q)
  then show ?thesis using assms by (simp split: sum.splits)
next
  case (Detach i)
  then show ?thesis using assms by (simp split: sum.splits)
next
  case (Erase_invalid p)
  then show ?thesis using assms by (simp add: erase_invalid_storage_unbound)
next
  case (Destroy_pool p)
  then show ?thesis using assms by (simp add: destroy_pool_storage_unbound)
next
  case (Attach_stored p i q)
  then show ?thesis using assms(2) by (simp add: leaves_stored_def)
next
  case (Detach_stored p i)
  then show ?thesis using assms(1) by (simp add: detach_stored_storage_unbound)
qed

lemma run_storage_unbound:
  "storage_unbound (heap s) \<Longrightarrow> list_all leaves_stored cs \<Longrightarrow>
   storage_unbound (heap (run cs s))"
  by (induction cs arbitrary: s) (simp_all add: step_storage_unbound)

lemma destroy_pool_unbound:
  assumes "pools w p = Some P" and "unbound_entries (items P)"
  shows "destroy_pool p w =
           \<lparr>pools = (pools w)(p := None), trace = trace w @ direct_delete (items P)\<rparr>"
  using assms by (simp add: destroy_pool_def Let_def release_all_unbound)

lemma erase_invalid_unbound:
  assumes "pools w p = Some P" and "unbound_entries (items P)"
  shows "erase_invalid p w =
           \<lparr>pools = (pools w)(p \<mapsto> P\<lparr>items := filter (\<lambda>sp. v_is_valid P (ptr sp)) (items P)\<rparr>),
            trace = trace w @ [Mutex_lock p] @ map (\<lambda>sp. V_is_valid p (ptr sp)) (items P) @
              [Mutex_unlock p] @ direct_delete (filter (rejected P) (items P))\<rparr>"
proof -
  have "unbound_entries (filter (rejected P) (items P))"
    using assms(2) by (rule unbound_entries_sub) simp
  then show ?thesis
    by (simp add: erase_invalid_eq [OF assms(1)] release_all_unbound)
qed

text \<open>
  C9 (as amended). Every item enters storage with an empty association, since \<open>push\<close>
  wraps it with a default deleter. Starting from storage whose entries carry default
  deleters (a new pool's storage is empty), after any sequence of operations of a caller on
  any pools and handles in which no stored entry is attached through a pointer sharing
  its control block, every stored entry of every pool still carries an empty association:
  \<open>create\<close>, \<open>get\<close>, letting go of any handle, \<open>attach\<close> and \<open>detach\<close> of held handles,
  \<open>detach\<close> of a stored entry, \<open>erase_invalid\<close> and the destruction of a pool keep it so.
  In such a state letting go of a stored entry deletes its item directly; destroying the
  pool deletes every stored item and pushes nothing; and \<open>erase_invalid\<close> deletes the
  rejected entries after the unlock and pushes nothing. The association is set again when
  \<open>get\<close> serves the entry.
\<close>

theorem stored_entries_unbound:
  assumes "storage_unbound (heap s)" and "list_all leaves_stored cs"
    and "heap (run cs s) = w" and "pools w p = Some P"
  shows "unbound_entries (items P) \<and>
         (\<forall>sp \<in> set (items P).
            release sp w0 = w0\<lparr>trace := trace w0 @ [Resolve None, Destroyed (ptr sp)]\<rparr>) \<and>
         destroy_pool p w =
           \<lparr>pools = (pools w)(p := None), trace = trace w @ direct_delete (items P)\<rparr> \<and>
         erase_invalid p w =
           \<lparr>pools = (pools w)(p \<mapsto> P\<lparr>items := filter (\<lambda>sp. v_is_valid P (ptr sp)) (items P)\<rparr>),
            trace = trace w @ [Mutex_lock p] @ map (\<lambda>sp. V_is_valid p (ptr sp)) (items P) @
              [Mutex_unlock p] @ direct_delete (filter (rejected P) (items P))\<rparr> \<and>
         (\<forall>older sp newer.
            owned P \<and> items P = older @ [sp] @ newer \<and> v_is_valid P (ptr sp) \<and>
            list_all (rejected P) newer \<longrightarrow>
            fst (get p w) = Inr (bound (ptr sp) p))"
proof -
  have "storage_unbound w"
    using run_storage_unbound [OF assms(1,2)] assms(3) by simp
  then have ue: "unbound_entries (items P)"
    using assms(4) by (rule storage_unboundD)
  have rel: "release sp w0 = w0\<lparr>trace := trace w0 @ [Resolve None, Destroyed (ptr sp)]\<rparr>"
    if "sp \<in> set (items P)" for sp
    using ue that by (intro release_unbound) (simp add: unbound_entries_def list_all_iff)
  have served: "fst (get p w) = Inr (bound (ptr sp) p)"
    if a: "owned P \<and> items P = older @ [sp] @ newer \<and> v_is_valid P (ptr sp) \<and>
           list_all (rejected P) newer"
    for older sp newer
  proof -
    have "unbound_entries (older @ [sp] @ newer)" using ue a by clarsimp
    then have d: "get_deleter sp = Some \<lparr>pool_ptr = None\<rparr>" and un: "unbound_entries newer"
      by (simp_all add: unbound_entries_def)
    have "get p w =
           (Inr (bound (ptr sp) p),
            \<lparr>pools = (pools w)(p \<mapsto> P\<lparr>items := older\<rparr>),
             trace = trace w @ discards p (rev newer) @
                [Mutex_lock p, Pop_back p (ptr sp), Mutex_unlock p, V_is_valid p (ptr sp)]\<rparr>)"
      using get_hit [OF assms(4) _ _ un _ _ d, of older] a
      by (simp add: list_all_iff)
    then show ?thesis by simp
  qed
  show ?thesis
    using ue rel served destroy_pool_unbound [OF assms(4) ue] erase_invalid_unbound [OF assms(4) ue]
    by blast
qed

lemma fresh_create_drop:
  "heap (run [Create 0, Drop 0] fresh_client) =
     \<lparr>pools = (pools (one_pool 0 counter_pool))(0 \<mapsto> counter_pool\<lparr>items := [unbound 0]\<rparr>),
      trace = [Factory_ok 0 0, Resolve (Some 0), V_is_valid 0 0, Mutex_lock 0, Push_back 0 0,
               Mutex_unlock 0]\<rparr>"
  by (simp add: fresh_client_def create_def shared_from_this_def receive_def release_def
      deleter_call_def lock_def push_def Let_def emit_def unbound_def counter_pool_def)

theorem stored_entries_unbound_witness:
  "unbound_entries [unbound (0 :: int)] \<and>
   release (unbound 0) (no_pool :: (int, string) world) =
     no_pool\<lparr>trace := [Resolve None, Destroyed 0]\<rparr> \<and>
   destroy_pool 0 (heap (run [Create 0, Drop 0] fresh_client)) =
     \<lparr>pools = (pools (heap (run [Create 0, Drop 0] fresh_client)))(0 := None),
      trace = [Factory_ok 0 0, Resolve (Some 0), V_is_valid 0 0, Mutex_lock 0, Push_back 0 0,
               Mutex_unlock 0, Resolve None, Destroyed 0]\<rparr> \<and>
   fst (get 0 (heap (run [Create 0, Drop 0] fresh_client))) = Inr (bound 0 0)"
proof -
  define H where "H = heap (run [Create 0, Drop 0] fresh_client)"
  have a: "storage_unbound (heap fresh_client)"
    by (simp add: storage_unbound_def fresh_client_def unbound_entries_def)
  have b: "pools H 0 = Some (counter_pool\<lparr>items := [unbound 0]\<rparr>)"
    and tr: "trace H = [Factory_ok 0 0, Resolve (Some 0), V_is_valid 0 0, Mutex_lock 0,
                        Push_back 0 0, Mutex_unlock 0]"
    unfolding H_def fresh_create_drop by simp_all
  have c: "list_all leaves_stored [Create 0, Drop 0]"
    by (simp add: leaves_stored_def)
  note t = stored_entries_unbound [OF a c H_def [symmetric] b, where ?w0.0 = no_pool]
  from t [THEN conjunct1] have "unbound_entries [unbound (0 :: int)]" by simp
  moreover from t [THEN conjunct2, THEN conjunct1]
  have "release (unbound 0) (no_pool :: (int, string) world) =
      no_pool\<lparr>trace := [Resolve None, Destroyed 0]\<rparr>" by (simp add: unbound_def)
  moreover from t [THEN conjunct2, THEN conjunct2, THEN conjunct1] have "destroy_pool 0 H =
      \<lparr>pools = (pools H)(0 := None),
       trace = [Factory_ok 0 0, Resolve (Some 0), V_is_valid 0 0, Mutex_lock 0, Push_back 0 0,
                Mutex_unlock 0, Resolve None, Destroyed 0]\<rparr>"
    by (simp add: tr direct_delete_def unbound_def)
  moreover from t [THEN conjunct2, THEN conjunct2, THEN conjunct2, THEN conjunct2, rule_format,
      of "[]" "unbound 0" "[]"]
  have "fst (get 0 H) = Inr (bound 0 0)"
    by (simp add: unbound_def)
  ultimately show ?thesis unfolding H_def by blast
qed

text \<open>
  The claim as written fails. Once a counter is back in storage, a caller with a pointer
  sharing the stored entry's control block can attach it, and the stored entry is bound
  without \<open>get\<close> having served it. Bound to a second pool, it is pushed into that pool and
  not deleted when its own pool is destroyed. And a bound entry that has gone negative in
  storage is offered to \<open>push\<close> again when it is swept: the trace shows the association
  resolved and the validity hook asked a second time.
\<close>

theorem stored_attach_counterexample:
  "stored 0 (heap (run [Create 0, Drop 0, Attach_stored 0 0 0] fresh_client)) = [bound 0 0] \<and>
   \<not> unbound_entries (stored 0 (heap (run [Create 0, Drop 0, Attach_stored 0 0 0] fresh_client))) \<and>
   stored 1 (heap (run [Create 0, Drop 0, Attach_stored 0 0 1, Destroy_pool 0] pair_client)) =
     [unbound 0] \<and>
   destroyed (trace (heap (run [Create 0, Drop 0, Attach_stored 0 0 1, Destroy_pool 0] pair_client))) = 0 \<and>
   trace (erase_invalid 0 (one_pool 0 (counter_pool\<lparr>items := [bound (- 1) 0]\<rparr>))) =
     [Mutex_lock 0, V_is_valid 0 (- 1), Mutex_unlock 0, Resolve (Some 0), V_is_valid 0 (- 1),
      Destroyed (- 1)]"
  by (simp add: fresh_client_def pair_client_def create_def shared_from_this_def receive_def
      release_def deleter_call_def lock_def push_def Let_def emit_def destroy_def unbound_def
      bound_def counter_pool_def attach_stored_def attach_def destroy_pool_def stored_def
      unbound_entries_def erase_invalid_def destroyed_def is_destruction_def)

subsection \<open>Conservation\<close>

lemma count_append [simp]:
  "constructed (xs @ ys) = constructed xs + constructed ys"
  "destroyed (xs @ ys) = destroyed xs + destroyed ys"
  by (simp_all add: constructed_def destroyed_def)

lemma count_Nil [simp]: "constructed [] = 0" "destroyed [] = 0"
  by (simp_all add: constructed_def destroyed_def)

lemma count_Cons [simp]:
  "constructed (e # tr) = (if is_construction e then 1 else 0) + constructed tr"
  "destroyed (e # tr) = (if is_destruction e then 1 else 0) + destroyed tr"
  by (simp_all add: constructed_def destroyed_def)

lemma is_construction_simps [simp]:
  "is_construction (Factory_ok p x)" "\<not> is_construction (Factory_failed p)"
  "\<not> is_construction (V_is_valid p x)" "\<not> is_construction (Resolve q)"
  "\<not> is_construction (Mutex_lock p)" "\<not> is_construction (Mutex_unlock p)"
  "\<not> is_construction (Push_back p x)" "\<not> is_construction (Pop_back p x)"
  "\<not> is_construction (Destroyed x)"
  by (simp_all add: is_construction_def)

lemma is_destruction_simps [simp]:
  "\<not> is_destruction (Factory_ok p x)" "\<not> is_destruction (Factory_failed p)"
  "\<not> is_destruction (V_is_valid p x)" "\<not> is_destruction (Resolve q)"
  "\<not> is_destruction (Mutex_lock p)" "\<not> is_destruction (Mutex_unlock p)"
  "\<not> is_destruction (Push_back p x)" "\<not> is_destruction (Pop_back p x)"
  "is_destruction (Destroyed x)"
  by (simp_all add: is_destruction_def)

lemma count_discards [simp]:
  "constructed (discards p xs) = 0" "destroyed (discards p xs) = length xs"
  by (induction xs) (simp_all add: discards_def discard_events_def)


lemma bound_to_simps [simp]:
  "bound_to p []" "bound_to p (hs @ [bound x p]) = bound_to p hs"
  by (simp_all add: bound_to_def bound_def)








end
